theory Spec2Isabelle
  imports Complex_Main "HOL-Library.Sublist"
begin

section \<open>Strings\<close>

text \<open>
  A JavaScript string is modelled as a \<^typ>\<open>string\<close>, one \<^typ>\<open>char\<close> per code unit, for
  texts whose code units are below 256. In that range the class \<open>\s\<close> of a regular
  expression and the characters removed by \<open>trim()\<close> are the same seven characters:
  TAB, LF, VT, FF, CR, SPACE and the no-break space.
\<close>

definition is_ws :: "char \<Rightarrow> bool" where
  "is_ws c = (c \<in> {CHR 0x09, CHR 0x0A, CHR 0x0B, CHR 0x0C, CHR 0x0D, CHR '' '', CHR 0xA0})"

text \<open>The character class \<open>[.,;:!?()[\]{}"'-]\<close> of \<open>estimateTokens\<close>.\<close>

definition is_punct :: "char \<Rightarrow> bool" where
  "is_punct c = (c \<in> {CHR ''.'', CHR '','', CHR '';'', CHR '':'', CHR ''!'', CHR ''?'',
     CHR ''('', CHR '')'', CHR ''['', CHR '']'', CHR ''{'', CHR ''}'', CHR 0x22, CHR 0x27,
     CHR ''-''})"

text \<open>The character class \<open>[.!?]\<close> of the sentence split.\<close>

definition is_sentence_end :: "char \<Rightarrow> bool" where
  "is_sentence_end c = (c \<in> {CHR ''.'', CHR ''!'', CHR ''?''})"

text \<open>\<open>s.trim()\<close>: leading and trailing white space removed.\<close>

definition trim :: "string \<Rightarrow> string" where
  "trim s = rev (dropWhile is_ws (rev (dropWhile is_ws s)))"

text \<open>
  \<open>s.split(/[class]+/)\<close>: the pieces of \<open>s\<close> between the maximal runs of characters of
  the class. The result always has at least one piece; a run at either end of \<open>s\<close> leaves
  an empty piece there.
\<close>

function split_runs :: "(char \<Rightarrow> bool) \<Rightarrow> string \<Rightarrow> string list" where
  "split_runs P [] = [[]]"
| "split_runs P (c # cs) =
     (if P c then [] # split_runs P (dropWhile P cs)
      else (case split_runs P cs of
              w # ws \<Rightarrow> (c # w) # ws
            | [] \<Rightarrow> [[c]]))"
  by pat_completeness auto
termination
  by (relation "measure (\<lambda>(P, s). length s)")
     (auto simp: le_imp_less_Suc length_dropWhile_le)

text \<open>
  \<open>s.split(sep)\<close> for a non-empty separator string \<open>sep\<close>: the pieces between the
  occurrences of \<open>sep\<close>, found from left to right without overlap. The source only splits
  on \<open>'\n\n'\<close>, \<open>' '\<close> and \<open>'/'\<close>.
\<close>

function split_on :: "string \<Rightarrow> string \<Rightarrow> string list" where
  "split_on sep [] = [[]]"
| "split_on sep (c # cs) =
     (if sep \<noteq> [] \<and> prefix sep (c # cs) then [] # split_on sep (drop (length sep) (c # cs))
      else (case split_on sep cs of
              w # ws \<Rightarrow> (c # w) # ws
            | [] \<Rightarrow> [[c]]))"
  by pat_completeness auto
termination
  by (relation "measure (\<lambda>(sep, s). length s)") (auto simp: Suc_le_eq)

section \<open>Text chunker (\<open>EmbeddingsService\<close>)\<close>

text \<open>
  \<open>estimateTokens\<close>: \<open>Math.ceil(words + punctuation + whitespace / 4)\<close>, where \<open>words\<close> is the
  number of pieces of \<open>text.split(/\s+/)\<close>. The first two summands are integers, so the
  ceiling rounds the quarter of the white-space count up.
\<close>

definition estimateTokens :: "string \<Rightarrow> nat" where
  "estimateTokens text =
     (let words = length (split_runs is_ws text);
          punctuation = length (filter is_punct text);
          whitespace = length (filter is_ws text)
      in words + punctuation + (whitespace + 3) div 4)"

text \<open>
  The three nested loops of \<open>chunkText\<close> share the variables \<open>chunks\<close> and
  \<open>currentChunk\<close>; each loop body is a step on the pair of them. A JavaScript string is
  truthy when it is not empty.
\<close>

type_synonym chunk_state = "string list \<times> string"

fun word_step :: "nat \<Rightarrow> chunk_state \<Rightarrow> string \<Rightarrow> chunk_state" where
  "word_step maxTokens (chunks, currentChunk) word =
     (let testWord = currentChunk @ (if currentChunk \<noteq> [] then '' '' else []) @ word
      in if estimateTokens testWord \<le> maxTokens then (chunks, testWord)
         else if currentChunk \<noteq> [] then (chunks @ [trim currentChunk], word)
         else (chunks, word))"

fun sentence_step :: "nat \<Rightarrow> chunk_state \<Rightarrow> string \<Rightarrow> chunk_state" where
  "sentence_step maxTokens (chunks, currentChunk) sentence =
     (let testSentence = currentChunk @ (if currentChunk \<noteq> [] then ''. '' else []) @ sentence
      in if estimateTokens testSentence \<le> maxTokens then (chunks, testSentence)
         else
           (let st = (if currentChunk \<noteq> [] then (chunks @ [trim currentChunk], [])
                      else (chunks, currentChunk))
            in if estimateTokens sentence > maxTokens
               then foldl (word_step maxTokens) st (split_on '' '' sentence)
               else (fst st, sentence)))"

fun paragraph_step :: "nat \<Rightarrow> chunk_state \<Rightarrow> string \<Rightarrow> chunk_state" where
  "paragraph_step maxTokens (chunks, currentChunk) paragraph =
     (let testChunk = currentChunk @ (if currentChunk \<noteq> [] then [CHR 0x0A, CHR 0x0A] else [])
                        @ paragraph
      in if estimateTokens testChunk \<le> maxTokens then (chunks, testChunk)
         else
           (let st = (if currentChunk \<noteq> [] then (chunks @ [trim currentChunk], [])
                      else (chunks, currentChunk))
            in if estimateTokens paragraph > maxTokens
               then foldl (sentence_step maxTokens) st (split_runs is_sentence_end paragraph)
               else (fst st, paragraph)))"

text \<open>
  \<open>chunkText(text, maxTokens)\<close>. The bound is a natural number: every estimate is at
  least 1, so a bound below 1 behaves like 0.
\<close>

definition chunkText :: "string \<Rightarrow> nat \<Rightarrow> string list" where
  "chunkText text maxTokens =
     (if estimateTokens text \<le> maxTokens then [text]
      else
        (let (chunks, currentChunk) =
               foldl (paragraph_step maxTokens) ([], []) (split_on [CHR 0x0A, CHR 0x0A] text);
             chunks' = (if trim currentChunk \<noteq> [] then chunks @ [trim currentChunk] else chunks)
         in filter (\<lambda>chunk. length chunk > 0) chunks'))"

text \<open>
  The words of a text, as the chunker sees them: the pieces that the three splits
  (\<open>'\n\n'\<close>, then \<open>/[.!?]+/\<close>, then \<open>' '\<close>) leave when they are applied one inside the other.
\<close>

definition words_of :: "string \<Rightarrow> string list" where
  "words_of text =
     concat (map (\<lambda>paragraph. concat (map (split_on '' '') (split_runs is_sentence_end paragraph)))
       (split_on [CHR 0x0A, CHR 0x0A] text))"

text \<open>The loop invariant behind the token bound of the chunks.\<close>

definition chunk_ok :: "nat \<Rightarrow> string set \<Rightarrow> string \<Rightarrow> bool" where
  "chunk_ok M W c = (estimateTokens c \<le> M \<or> (\<exists>w\<in>W. c = trim w \<and> M < estimateTokens w))"

definition chunk_inv :: "nat \<Rightarrow> string set \<Rightarrow> chunk_state \<Rightarrow> bool" where
  "chunk_inv M W st =
     ((\<forall>c\<in>set (fst st). chunk_ok M W c) \<and>
      (snd st = [] \<or> estimateTokens (snd st) \<le> M \<or> snd st \<in> W))"

text \<open>
  What chunking keeps of a text: its characters other than white space and the
  sentence punctuation \<open>.\<close>, \<open>!\<close>, \<open>?\<close>. \<open>non_whitespace\<close> is the content the specification
  speaks of.
\<close>

definition kept :: "char \<Rightarrow> bool" where
  "kept c = (\<not> is_ws c \<and> \<not> is_sentence_end c)"

definition content_of :: "string \<Rightarrow> string" where
  "content_of s = filter kept s"

definition non_whitespace :: "string \<Rightarrow> string" where
  "non_whitespace s = filter (\<lambda>c. \<not> is_ws c) s"



text \<open>
  A single atomic word in the words of the specification: a non-empty text without
  white space in it.
\<close>

definition spec_atomic_word :: "string \<Rightarrow> bool" where
  "spec_atomic_word c = (c \<noteq> [] \<and> (\<forall>x\<in>set c. \<not> is_ws x))"

section \<open>Embedding client (\<open>generateEmbedding\<close>)\<close>

text \<open>
  A JavaScript number is an IEEE 754 double: a real number that is a double, one of
  the two infinities, or \<open>NaN\<close> (which is also what \<open>undefined + x\<close> gives when the averaging
  loop writes past the end of the accumulator). The sign of a zero is not modelled.

  An arithmetic operation gives the exact result rounded to the nearest double. The
  rounding belongs to the platform and is a parameter of the model: \<open>rnd x\<close> is the
  double nearest to a real \<open>x\<close> of magnitude below \<open>2\<^sup>1\<^sup>0\<^sup>2\<^sup>4\<close> (an infinity for the few
  values at the very top of that range). A result of magnitude \<open>2\<^sup>1\<^sup>0\<^sup>2\<^sup>4\<close> or more
  overflows to an infinity, whatever the rounding.
\<close>

datatype jsnum = Num real | PosInfinity | NegInfinity | NaN

type_synonym rounding = "real \<Rightarrow> jsnum"

definition to_double :: "rounding \<Rightarrow> real \<Rightarrow> jsnum" where
  "to_double rnd x =
     (if 2 ^ 1024 \<le> x then PosInfinity
      else if x \<le> - (2 ^ 1024) then NegInfinity
      else rnd x)"

text \<open>\<open>a + b\<close> on numbers.\<close>

fun jsadd :: "rounding \<Rightarrow> jsnum \<Rightarrow> jsnum \<Rightarrow> jsnum" where
  "jsadd rnd (Num a) (Num b) = to_double rnd (a + b)"
| "jsadd rnd NaN b = NaN"
| "jsadd rnd a NaN = NaN"
| "jsadd rnd PosInfinity NegInfinity = NaN"
| "jsadd rnd NegInfinity PosInfinity = NaN"
| "jsadd rnd PosInfinity b = PosInfinity"
| "jsadd rnd a PosInfinity = PosInfinity"
| "jsadd rnd NegInfinity b = NegInfinity"
| "jsadd rnd a NegInfinity = NegInfinity"

text \<open>\<open>a / k\<close> for a number \<open>a\<close> and the length \<open>k\<close> of an array.\<close>

fun jsdiv :: "rounding \<Rightarrow> jsnum \<Rightarrow> nat \<Rightarrow> jsnum" where
  "jsdiv rnd (Num a) k =
     (if k = 0 then (if a = 0 then NaN else if 0 < a then PosInfinity else NegInfinity)
      else to_double rnd (a / real k))"
| "jsdiv rnd PosInfinity k = PosInfinity"
| "jsdiv rnd NegInfinity k = NegInfinity"
| "jsdiv rnd NaN k = NaN"

text \<open>
  The remote call \<open>client.embeddings.create\<close> followed by \<open>response.data[0].embedding\<close>.
  \<open>api n input\<close> is the answer to the request number \<open>n\<close> of one call of
  \<open>generateEmbedding\<close> (counted from 0), sent with the text \<open>input\<close>: the vector of doubles
  it returns, or \<open>Inl\<close> the message of the error it throws.
\<close>

type_synonym embed_api = "nat \<Rightarrow> string \<Rightarrow> string + real list"

text \<open>The safety check before each remote call: above 7000 estimated tokens the input
  is cut to \<open>6000 * 3\<close> characters.\<close>

definition truncate_input :: "string \<Rightarrow> string" where
  "truncate_input chunkText' =
     (if estimateTokens chunkText' > 7000 then take (6000 * 3) chunkText' else chunkText')"

text \<open>The loop over the chunks, from the request number \<open>n\<close> on; the first remote call
  that throws ends it.\<close>

fun embed_chunks :: "embed_api \<Rightarrow> nat \<Rightarrow> string list \<Rightarrow> string + jsnum list list" where
  "embed_chunks api n [] = Inr []"
| "embed_chunks api n (chunk # rest) =
     (case api n (truncate_input chunk) of
        Inl e \<Rightarrow> Inl e
      | Inr v \<Rightarrow> (case embed_chunks api (n + 1) rest of
                    Inl e \<Rightarrow> Inl e
                  | Inr vs \<Rightarrow> Inr (map Num v # vs)))"

text \<open>
  \<open>for (i = 0; i < embedding.length; i++) avgEmbedding[i] += embedding[i]\<close>. Where the
  embedding is longer than the accumulator, the array grows by \<open>undefined + x = NaN\<close>.
\<close>

fun add_into :: "rounding \<Rightarrow> jsnum list \<Rightarrow> jsnum list \<Rightarrow> jsnum list" where
  "add_into rnd avg [] = avg"
| "add_into rnd [] (e # es) = NaN # add_into rnd [] es"
| "add_into rnd (a # as) (e # es) = jsadd rnd a e # add_into rnd as es"

definition average_embeddings :: "rounding \<Rightarrow> jsnum list list \<Rightarrow> string + jsnum list" where
  "average_embeddings rnd chunkEmbeddings =
     (case chunkEmbeddings of
        [] \<Rightarrow> Inl ''Cannot read properties of undefined''
      | first # _ \<Rightarrow>
          (let avgEmbedding = foldl (add_into rnd) (replicate (length first) (Num 0)) chunkEmbeddings
           in Inr (map (\<lambda>x. jsdiv rnd x (length chunkEmbeddings)) avgEmbedding)))"

text \<open>\<open>generateEmbedding\<close>; the client is \<open>None\<close> when no API key is configured.\<close>

definition generateEmbedding :: "rounding \<Rightarrow> embed_api option \<Rightarrow> string \<Rightarrow> string + jsnum list" where
  "generateEmbedding rnd client text =
     (case client of
        None \<Rightarrow> Inl ''OpenAI API key not configured. Please add VITE_OPENAI_API_KEY to your .env file.''
      | Some api \<Rightarrow>
          (let chunks = chunkText text 4500;
               attempt =
                 (if length chunks > 1 then
                    (case embed_chunks api 0 chunks of
                       Inl e \<Rightarrow> Inl e
                     | Inr chunkEmbeddings \<Rightarrow> average_embeddings rnd chunkEmbeddings)
                  else
                    (case api 0 (truncate_input text) of
                       Inl e \<Rightarrow> Inl e
                     | Inr embedding \<Rightarrow> Inr (map Num embedding)))
           in case attempt of
                Inl e \<Rightarrow> Inl (''Embedding generation failed: '' @ e)
              | Inr v \<Rightarrow> Inr v))"

text \<open>
  The value of \<open>((0 + x\<^sub>1) + \<dots> + x\<^sub>k) / k\<close> in the arithmetic of doubles, and the condition
  under which no operation of it rounds or overflows: every partial sum and the
  quotient are doubles of magnitude below \<open>2\<^sup>1\<^sup>0\<^sup>2\<^sup>4\<close>.
\<close>

definition double_mean :: "rounding \<Rightarrow> real list \<Rightarrow> jsnum" where
  "double_mean rnd xs = jsdiv rnd (foldl (jsadd rnd) (Num 0) (map Num xs)) (length xs)"

definition is_double :: "rounding \<Rightarrow> real \<Rightarrow> bool" where
  "is_double rnd x = (\<bar>x\<bar> < 2 ^ 1024 \<and> rnd x = Num x)"

definition mean_exact :: "rounding \<Rightarrow> real list \<Rightarrow> bool" where
  "mean_exact rnd xs =
     ((\<forall>j\<in>{1..length xs}. is_double rnd (sum_list (take j xs))) \<and>
      is_double rnd (sum_list xs / real (length xs)))"

section \<open>Link filter and prioritizer (\<open>filterAndPrioritizeUrls\<close>)\<close>

text \<open>
  \<open>new URL(s)\<close> belongs to the platform, not to the repository: the parser is a parameter
  of the model. It returns the two components the code reads, or \<open>None\<close> where the
  constructor throws.
\<close>

record parsed_url =
  hostname :: string
  pathname :: string

type_synonym url_parser = "string \<Rightarrow> parsed_url option"

text \<open>
  Lower case on the letters A to Z. The patterns of the code are ASCII, and a regular
  expression with the flag \<open>i\<close> (and without \<open>u\<close>) never lets a character beyond ASCII
  match an ASCII letter.
\<close>

definition lower_char :: "char \<Rightarrow> char" where
  "lower_char c =
     (case map_of (zip ''ABCDEFGHIJKLMNOPQRSTUVWXYZ'' ''abcdefghijklmnopqrstuvwxyz'') c of
        Some l \<Rightarrow> l
      | None \<Rightarrow> c)"

definition toLowerCase :: "string \<Rightarrow> string" where
  "toLowerCase s = map lower_char s"

text \<open>\<open>/alt1|alt2|.../i.test(s)\<close> for literal alternatives: one of them occurs in \<open>s\<close>,
  letter case ignored.\<close>

definition test_any_ci :: "string list \<Rightarrow> string \<Rightarrow> bool" where
  "test_any_ci alternatives s = list_ex (\<lambda>alt. sublist alt (toLowerCase s)) alternatives"

text \<open>\<open>/(alt1|alt2|...)$/i.test(s)\<close>: \<open>s\<close> ends with one of the alternatives.\<close>

definition test_end_ci :: "string list \<Rightarrow> string \<Rightarrow> bool" where
  "test_end_ci alternatives s = list_ex (\<lambda>alt. suffix alt (toLowerCase s)) alternatives"

definition skipExtensions :: "string list" where
  "skipExtensions =
     [''.pdf'', ''.doc'', ''.docx'', ''.xls'', ''.xlsx'', ''.ppt'', ''.pptx'',
      ''.zip'', ''.rar'', ''.tar'', ''.gz'', ''.exe'', ''.dmg'', ''.pkg'',
      ''.jpg'', ''.jpeg'', ''.png'', ''.gif'', ''.svg'', ''.webp'',
      ''.mp3'', ''.mp4'', ''.avi'', ''.mov'', ''.wav'', ''.flv'']"

text \<open>The five \<open>skipPatterns\<close>, tested on the link as it was given.\<close>

definition skipPatterns :: "string \<Rightarrow> bool" where
  "skipPatterns url =
     (test_any_ci [''/login'', ''/register'', ''/signup'', ''/signin'', ''/auth''] url \<or>
      test_any_ci [''/cart'', ''/checkout'', ''/payment'', ''/billing''] url \<or>
      test_any_ci [''/admin'', ''/wp-admin''] url \<or>
      CHR ''#'' \<in> set url \<or>
      test_end_ci [''.css'', ''.js'', ''.json'', ''.txt'', ''.xml''] url)"

text \<open>The callback of \<open>urls.filter\<close>; its \<open>catch\<close> rejects a link that does not parse.\<close>

definition accepts_url :: "url_parser \<Rightarrow> string \<Rightarrow> string \<Rightarrow> bool" where
  "accepts_url parse baseDomain url =
     (case parse url of
        None \<Rightarrow> False
      | Some parsedUrl \<Rightarrow>
          if hostname parsedUrl \<noteq> baseDomain then False
          else if list_ex (\<lambda>ext. suffix ext (toLowerCase (pathname parsedUrl))) skipExtensions
          then False
          else if skipPatterns url then False
          else True)"

text \<open>\<open>pathname.split('/').filter(Boolean).length\<close>.\<close>

definition pathDepth :: "parsed_url \<Rightarrow> nat" where
  "pathDepth parsedUrl = length (filter (\<lambda>segment. segment \<noteq> []) (split_on ''/'' (pathname parsedUrl)))"

text \<open>\<open>/\/(docs|documentation|api|guide|tutorial|blog|news|product)/i.test(url)\<close>.\<close>

definition hasImportantKeywords :: "string \<Rightarrow> bool" where
  "hasImportantKeywords url =
     test_any_ci [''/docs'', ''/documentation'', ''/api'', ''/guide'', ''/tutorial'', ''/blog'',
                  ''/news'', ''/product''] url"

definition url_priority :: "parsed_url \<Rightarrow> string \<Rightarrow> int" where
  "url_priority parsedUrl url =
     (if hasImportantKeywords url then int (pathDepth parsedUrl) - 1 else int (pathDepth parsedUrl))"

text \<open>The callback of the \<open>map\<close> before the sort; \<open>new URL(url)\<close> may throw there too.\<close>

definition prioritize :: "url_parser \<Rightarrow> string \<Rightarrow> (string \<times> int) option" where
  "prioritize parse url =
     (case parse url of
        None \<Rightarrow> None
      | Some parsedUrl \<Rightarrow> Some (url, url_priority parsedUrl url))"

text \<open>\<open>xs.slice(0, end)\<close>: a negative \<open>end\<close> counts from the end of the array.\<close>

definition slice0 :: "'a list \<Rightarrow> int \<Rightarrow> 'a list" where
  "slice0 xs end' =
     (if end' < 0 then take (nat (max (int (length xs) + end') 0)) xs
      else take (nat end') xs)"

text \<open>
  \<open>filterAndPrioritizeUrls(urls, baseUrl)\<close>. \<open>maxUrls\<close> is the number that \<open>parseInt\<close> reads
  from the setting \<open>VITE_CRAWL4AI_MAX_PAGES\<close> (5000 when it is not set). The result is
  \<open>None\<close> where the function throws. \<open>Array.prototype.sort\<close> is stable, and so is
  \<^const>\<open>sort_key\<close>; the events and log lines that the function emits are left out.
\<close>

definition filterAndPrioritizeUrls :: "url_parser \<Rightarrow> int \<Rightarrow> string list \<Rightarrow> string \<Rightarrow> string list option" where
  "filterAndPrioritizeUrls parse maxUrls urls baseUrl =
     (case parse baseUrl of
        None \<Rightarrow> None
      | Some urlObj \<Rightarrow>
          (let baseDomain = hostname urlObj;
               filtered = filter (accepts_url parse baseDomain) urls
           in case those (map (prioritize parse) filtered) of
                None \<Rightarrow> None
              | Some items \<Rightarrow>
                  (let prioritized = map fst (sort_key snd items)
                   in Some (slice0 prioritized maxUrls))))"

text \<open>The priority key of a link that parses (a link that does not parse never reaches
  the sort).\<close>

definition priority_key :: "url_parser \<Rightarrow> string \<Rightarrow> int" where
  "priority_key parse url = (case parse url of Some parsedUrl \<Rightarrow> url_priority parsedUrl url | None \<Rightarrow> 0)"

text \<open>
  The priority key in the words of the specification: the path-segment depth, reduced
  by one exactly when the path contains one of docs, api, guide, tutorial, blog,
  product, reference.
\<close>

definition spec_priority_key :: "url_parser \<Rightarrow> string \<Rightarrow> int" where
  "spec_priority_key parse url =
     (case parse url of
        None \<Rightarrow> 0
      | Some parsedUrl \<Rightarrow>
          if test_any_ci [''docs'', ''api'', ''guide'', ''tutorial'', ''blog'', ''product'',
                          ''reference''] (pathname parsedUrl)
          then int (pathDepth parsedUrl) - 1 else int (pathDepth parsedUrl))"

text \<open>
  A parser for the plain addresses \<open>https://host/path\<close> of the examples below, on which
  it gives the host name and path that \<open>new URL\<close> gives.
\<close>

definition example_parse :: url_parser where
  "example_parse s =
     (if prefix ''https://'' s then
        (let rest = drop 8 s;
             host = takeWhile (\<lambda>c. c \<noteq> CHR ''/'') rest;
             path = dropWhile (\<lambda>c. c \<noteq> CHR ''/'') rest
         in if host = [] then None
            else Some \<lparr>hostname = host, pathname = (if path = [] then ''/'' else path)\<rparr>)
      else None)"

section \<open>Task poller (\<open>pollForResults\<close>)\<close>

text \<open>The body of the reply to \<open>GET /task/{taskId}\<close>; an absent field is the empty string.\<close>

record task_reply =
  task_status :: string
  task_state :: string
  task_error :: string

datatype get_reply = GetThrows string | GetData task_reply

text \<open>
  The errors of the poller: the two that are thrown inside the \<open>try\<close> block of an attempt
  (by the transport, or by the code on a failed task), and the two that leave the
  function.
\<close>

datatype poll_error =
    TransportError string
  | TaskFailed string
  | PollingFailedAfter nat
  | PollingTimedOut

datatype poll_event = Get nat | Wait nat

text \<open>
  The \<open>try\<close> block of one attempt: \<open>Inl\<close> is a throw, \<open>Inr (Some r)\<close> is the \<open>return\<close> on a
  completed task, \<open>Inr None\<close> is falling through to the next attempt.
\<close>

definition poll_attempt :: "get_reply \<Rightarrow> poll_error + task_reply option" where
  "poll_attempt reply =
     (case reply of
        GetThrows e \<Rightarrow> Inl (TransportError e)
      | GetData result \<Rightarrow>
          if task_status result = ''completed'' \<or> task_state result = ''completed''
          then Inr (Some result)
          else if task_status result = ''failed'' \<or> task_state result = ''failed''
          then Inl (TaskFailed (if task_error result \<noteq> [] then task_error result
                                else ''Unknown error''))
          else Inr None)"

text \<open>
  The \<open>for\<close> loop with its \<open>catch\<close>. \<open>get n\<close> is the answer of the backend to the \<open>n\<close>-th
  request. The result is the reply that the code hands to \<open>processResponse\<close> and
  returns, or the error of the function, and the requests and waits (in milliseconds)
  it made.
\<close>

function poll_loop ::
  "(nat \<Rightarrow> get_reply) \<Rightarrow> nat \<Rightarrow> nat \<Rightarrow> poll_event list \<Rightarrow> (poll_error + task_reply) \<times> poll_event list"
where
  "poll_loop get maxAttempts attempt events =
     (if attempt \<le> maxAttempts then
        (case poll_attempt (get attempt) of
           Inr (Some result) \<Rightarrow> (Inr result, events @ [Get attempt])
         | Inr None \<Rightarrow>
             poll_loop get maxAttempts (attempt + 1) (events @ [Get attempt, Wait 2000])
         | Inl e \<Rightarrow>
             if attempt = maxAttempts
             then (Inl (PollingFailedAfter maxAttempts), events @ [Get attempt])
             else poll_loop get maxAttempts (attempt + 1) (events @ [Get attempt, Wait 2000]))
      else (Inl PollingTimedOut, events))"
  by pat_completeness auto
termination
  by (relation "measure (\<lambda>(get, maxAttempts, attempt, events). Suc maxAttempts - attempt)") auto

declare poll_loop.simps [simp del]

definition pollForResults :: "(nat \<Rightarrow> get_reply) \<Rightarrow> nat \<Rightarrow> (poll_error + task_reply) \<times> poll_event list" where
  "pollForResults get maxAttempts = poll_loop get maxAttempts 1 []"

section \<open>Persistence (\<open>saveCrawlResultAsDocument\<close>, \<open>saveIndividualPage\<close>)\<close>

text \<open>
  A \<open>CrawlResult\<close>, with the fields the persistence code reads; an absent string field
  is the empty string (both are falsy), \<open>cr_title\<close> and \<open>cr_page_index\<close> are
  \<open>metadata.title\<close> and \<open>metadata.page_index\<close> (0 when absent). The random identifier
  and the timestamps are left out.
\<close>

record crawl_result =
  cr_url :: string
  cr_status :: string
  cr_content :: string
  cr_markdown :: string
  cr_rawMarkdown :: string
  cr_fitMarkdown :: string
  cr_title :: "string option"
  cr_page_index :: nat
  cr_error :: string

text \<open>The row sent to the table \<open>crawled_pages\<close>.\<close>

record document =
  doc_url :: string
  chunk_number :: nat
  doc_content :: string
  doc_title :: string
  doc_crawl_status :: string
  doc_embedding :: "jsnum list option"

text \<open>
  The table is a map from its unique key \<open>(url, chunk_number)\<close> to a row; \<open>upserts\<close> lists
  the rows for which an upsert request was issued. The database answers a request
  with the stored row, with an error, or with neither.
\<close>

record save_state =
  store :: "string \<times> nat \<rightharpoonup> document"
  upserts :: "document list"

datatype db_reply = Stored | DbError string | NoData

type_synonym db_api = "document \<Rightarrow> db_reply"

definition textForEmbedding :: "crawl_result \<Rightarrow> string" where
  "textForEmbedding crawlResult =
     (let markdownContent =
            (if cr_fitMarkdown crawlResult \<noteq> [] then cr_fitMarkdown crawlResult
             else if cr_rawMarkdown crawlResult \<noteq> [] then cr_rawMarkdown crawlResult
             else if cr_markdown crawlResult \<noteq> [] then cr_markdown crawlResult
             else cr_content crawlResult);
          title = (case cr_title crawlResult of Some t \<Rightarrow> t | None \<Rightarrow> [])
      in if title \<noteq> [] \<and> markdownContent \<noteq> [] then title @ [CHR 0x0A, CHR 0x0A] @ markdownContent
         else title @ markdownContent)"

text \<open>
  The inner \<open>try\<close> around \<open>generateEmbedding\<close>: an error leaves \<open>embedding\<close> undefined.
\<close>

definition embedding_for :: "rounding \<Rightarrow> embed_api option \<Rightarrow> string \<Rightarrow> jsnum list option" where
  "embedding_for rnd client text =
     (if client \<noteq> None \<and> trim text \<noteq> [] then
        (case generateEmbedding rnd client text of
           Inl e \<Rightarrow> None
         | Inr embedding \<Rightarrow> Some embedding)
      else None)"

text \<open>
  The object literal \<open>document\<close>. The title falls back to \<open>new URL(url).hostname\<close> when
  \<open>metadata.title\<close> is missing or empty, and that constructor may throw; the spread of
  the metadata then writes a title that is present over the fallback.
\<close>

definition build_document :: "url_parser \<Rightarrow> crawl_result \<Rightarrow> jsnum list option \<Rightarrow> string + document" where
  "build_document parse crawlResult embedding =
     (let actualContent =
            (if cr_fitMarkdown crawlResult \<noteq> [] then cr_fitMarkdown crawlResult
             else if cr_rawMarkdown crawlResult \<noteq> [] then cr_rawMarkdown crawlResult
             else if cr_markdown crawlResult \<noteq> [] then cr_markdown crawlResult
             else cr_content crawlResult);
          chunkNumber = (if cr_page_index crawlResult \<noteq> 0 then cr_page_index crawlResult else 1);
          fallback =
            (if cr_title crawlResult = None \<or> cr_title crawlResult = Some []
             then (case parse (cr_url crawlResult) of
                     None \<Rightarrow> Inl ''Invalid URL''
                   | Some u \<Rightarrow> Inr (hostname u))
             else Inr [])
      in case fallback of
           Inl e \<Rightarrow> Inl e
         | Inr host \<Rightarrow>
             Inr \<lparr>doc_url = cr_url crawlResult,
                  chunk_number = chunkNumber,
                  doc_content = actualContent,
                  doc_title = (case cr_title crawlResult of Some t \<Rightarrow> t | None \<Rightarrow> host),
                  doc_crawl_status = cr_status crawlResult,
                  doc_embedding = embedding\<rparr>)"

text \<open>
  \<open>saveCrawlResultAsDocument\<close>: the outer \<open>catch\<close> rethrows every error with the prefix
  \<open>Failed to save to database\<close>.
\<close>

definition saveCrawlResultAsDocument ::
  "url_parser \<Rightarrow> rounding \<Rightarrow> embed_api option \<Rightarrow> db_api \<Rightarrow> crawl_result \<Rightarrow> save_state \<Rightarrow> (string + document) \<times> save_state"
where
  "saveCrawlResultAsDocument parse rnd client db crawlResult st =
     (let embedding = embedding_for rnd client (textForEmbedding crawlResult)
      in case build_document parse crawlResult embedding of
           Inl e \<Rightarrow> (Inl (''Failed to save to database: '' @ e), st)
         | Inr doc \<Rightarrow>
             (let st' = st\<lparr>upserts := upserts st @ [doc]\<rparr>
              in case db doc of
                   Stored \<Rightarrow>
                     (Inr doc, st'\<lparr>store := (store st')((doc_url doc, chunk_number doc) \<mapsto> doc)\<rparr>)
                 | DbError e \<Rightarrow> (Inl (''Failed to save to database: '' @ e), st')
                 | NoData \<Rightarrow>
                     (Inl (''Failed to save to database: '' @
                           ''Upsert operation completed but returned no data''), st')))"

text \<open>
  One entry of the array \<open>results\<close> that the backend returns. The field \<open>markdown\<close> is
  absent, a string, or an object with the fields \<open>raw_markdown\<close> and \<open>fit_markdown\<close>.
\<close>

datatype markdown_field = NoMarkdown | MarkdownText string | MarkdownObject string string

record page_result =
  pr_url :: string
  pr_success :: bool
  pr_content :: string
  pr_markdown :: markdown_field
  pr_cleaned_html :: string
  pr_html :: string
  pr_extracted_content :: string
  pr_title :: "string option"
  pr_error_message :: string

text \<open>A value that is a string or an object that is not a string (truthy, without
  \<open>trim\<close>).\<close>

datatype jsval = JStr string | JObj

text \<open>\<open>result.markdown?.raw_markdown || result.markdown || ''\<close>.\<close>

definition rawMarkdown_of :: "page_result \<Rightarrow> jsval" where
  "rawMarkdown_of result =
     (case pr_markdown result of
        NoMarkdown \<Rightarrow> JStr []
      | MarkdownText s \<Rightarrow> JStr s
      | MarkdownObject raw fit \<Rightarrow> if raw \<noteq> [] then JStr raw else JObj)"

text \<open>\<open>result.markdown?.fit_markdown || ''\<close>.\<close>

definition fitMarkdown_of :: "page_result \<Rightarrow> string" where
  "fitMarkdown_of result =
     (case pr_markdown result of
        MarkdownObject raw fit \<Rightarrow> fit
      | _ \<Rightarrow> [])"

text \<open>\<open>fitMarkdown || rawMarkdown || extractedContent || htmlContent || ''\<close>.\<close>

definition best_content :: "page_result \<Rightarrow> jsval" where
  "best_content result =
     (let htmlContent = (if pr_cleaned_html result \<noteq> [] then pr_cleaned_html result else pr_html result)
      in if fitMarkdown_of result \<noteq> [] then JStr (fitMarkdown_of result)
         else (case rawMarkdown_of result of
                 JObj \<Rightarrow> JObj
               | JStr raw \<Rightarrow>
                   if raw \<noteq> [] then JStr raw
                   else if pr_extracted_content result \<noteq> [] then JStr (pr_extracted_content result)
                   else JStr htmlContent))"

text \<open>The \<open>CrawlResult\<close> that both functions build for a page.\<close>

definition page_record :: "nat \<Rightarrow> page_result \<Rightarrow> string \<Rightarrow> string \<Rightarrow> crawl_result" where
  "page_record page_index result rawMarkdown content =
     \<lparr>cr_url = pr_url result,
      cr_status = ''completed'',
      cr_content = content,
      cr_markdown = rawMarkdown,
      cr_rawMarkdown = rawMarkdown,
      cr_fitMarkdown = fitMarkdown_of result,
      cr_title = pr_title result,
      cr_page_index = page_index,
      cr_error = []\<rparr>"

text \<open>
  \<open>saveIndividualPage\<close>. The whole body is inside a \<open>try\<close> whose \<open>catch\<close> only logs, so the
  function returns normally on every path and the model returns the state alone.
  \<open>content.trim()\<close> throws when the content is not a string, and
  \<open>saveCrawlResultAsDocument\<close> throws on a markdown that is not a string (it calls
  \<open>substring\<close> on it); both errors end in that \<open>catch\<close>.
\<close>

definition saveIndividualPage ::
  "url_parser \<Rightarrow> rounding \<Rightarrow> embed_api option \<Rightarrow> db_api \<Rightarrow> page_result \<Rightarrow> save_state \<Rightarrow> save_state"
where
  "saveIndividualPage parse rnd client db result st =
     (if \<not> pr_success result then st
      else
        (case best_content result of
           JObj \<Rightarrow> st
         | JStr content \<Rightarrow>
             if trim content \<noteq> [] then
               (case rawMarkdown_of result of
                  JObj \<Rightarrow> st
                | JStr rawMarkdown \<Rightarrow>
                    snd (saveCrawlResultAsDocument parse rnd client db
                           (page_record 0 result rawMarkdown content) st))
             else st))"

text \<open>
  \<open>saveIndividualPages\<close>: the loop over the entries, the \<open>i\<close>-th saved with
  \<open>page_index = i + 1\<close>. Here only the call of \<open>saveCrawlResultAsDocument\<close> is inside a
  \<open>try\<close>: \<open>content.trim()\<close> on a content that is not a string ends the loop with an error.
\<close>

fun saveIndividualPages_from ::
  "url_parser \<Rightarrow> rounding \<Rightarrow> embed_api option \<Rightarrow> db_api \<Rightarrow> nat \<Rightarrow> page_result list \<Rightarrow> save_state \<Rightarrow> string + save_state"
where
  "saveIndividualPages_from parse rnd client db i [] st = Inr st"
| "saveIndividualPages_from parse rnd client db i (result # rest) st =
     (if \<not> pr_success result then saveIndividualPages_from parse rnd client db (i + 1) rest st
      else
        (case best_content result of
           JObj \<Rightarrow> Inl ''content.trim is not a function''
         | JStr content \<Rightarrow>
             if trim content \<noteq> [] then
               (case rawMarkdown_of result of
                  JObj \<Rightarrow> saveIndividualPages_from parse rnd client db (i + 1) rest st
                | JStr rawMarkdown \<Rightarrow>
                    saveIndividualPages_from parse rnd client db (i + 1) rest
                      (snd (saveCrawlResultAsDocument parse rnd client db
                              (page_record (i + 1) result rawMarkdown content) st)))
             else saveIndividualPages_from parse rnd client db (i + 1) rest st))"

definition saveIndividualPages ::
  "url_parser \<Rightarrow> rounding \<Rightarrow> embed_api option \<Rightarrow> db_api \<Rightarrow> page_result list \<Rightarrow> save_state \<Rightarrow> string + save_state"
where
  "saveIndividualPages parse rnd client db results st = saveIndividualPages_from parse rnd client db 0 results st"

section \<open>Batch scheduler (\<open>intelligentBatchCrawl\<close>)\<close>

text \<open>
  The field \<open>results\<close> of the answer to \<open>POST /crawl\<close>: absent (or another value that
  \<open>!\<close> takes for false), a value that is not an array, or an array, an entry of which
  may be \<open>null\<close>.
\<close>

datatype results_field = NoResults | NotAnArray | Results "page_result option list"

text \<open>
  The answer to \<open>POST /crawl\<close>: the call throws (or there is no body to read), or it
  returns a body with a task identifier (empty when absent) and the field \<open>results\<close>.
  \<open>post n batch\<close> is the answer to the request for \<open>batch\<close> when \<open>n\<close> requests were made
  before it.
\<close>

datatype post_reply = PostThrows string | PostData string results_field

type_synonym post_api = "nat \<Rightarrow> string list \<Rightarrow> post_reply"

text \<open>
  What \<open>pollForResults\<close> does for a task, as the scheduler sees it. It throws; or the
  task completes with an array of results, which \<open>processResponse\<close> hands to
  \<open>saveIndividualPages\<close> before it returns a summary without the field \<open>crawled_urls\<close>; or
  the task completes with a single result, of which nothing is saved and whose
  metadata has the field \<open>crawled_urls\<close> or not. \<open>poll n task\<close> is what happens when the
  task is polled after the request that \<open>n\<close> requests preceded. The waits of the poller
  itself are not among the events of the scheduler.
\<close>

datatype poll_reply = PollThrows string | PollPages "page_result option list" | PollSingle bool

type_synonym poll_api = "nat \<Rightarrow> string \<Rightarrow> poll_reply"

datatype sched_event =
    BatchStart nat nat "string list"
  | Post "string list"
  | Delay nat
  | UrlCrawled string
  | UrlFailed string

record sched_state =
  allResults :: "page_result list"
  trace :: "sched_event list"
  posts :: nat
  saved :: save_state

text \<open>
  The two functions that write to the table, as the scheduler calls them:
  \<open>saveIndividualPage\<close> for a page of a batch and \<open>saveIndividualPages\<close> for the pages of
  a polled task. The second is not awaited in the code; the model lets its upserts
  happen at once.
\<close>

type_synonym save_one = "page_result \<Rightarrow> save_state \<Rightarrow> save_state"

type_synonym save_many = "page_result option list \<Rightarrow> save_state \<Rightarrow> save_state"

text \<open>
  The loop that fills \<open>batches\<close>: \<open>for (i = 0; i < urls.length; i += maxBatchSize)\<close>. With a
  batch size of 0 and a link to crawl it never ends.
\<close>

partial_function (option) split_batches ::
  "string list \<Rightarrow> nat \<Rightarrow> nat \<Rightarrow> string list list \<Rightarrow> string list list option"
where
  "split_batches urls maxBatchSize i batches =
     (if i < length urls
      then split_batches urls maxBatchSize (i + maxBatchSize)
             (batches @ [take maxBatchSize (drop i urls)])
      else Some batches)"

declare split_batches.simps [code]

text \<open>The body of the loop over the results of a batch, for an entry that is not
  \<open>null\<close>.\<close>

definition record_result :: "save_one \<Rightarrow> sched_state \<Rightarrow> page_result \<Rightarrow> sched_state" where
  "record_result save st result =
     (if pr_success result then
        st\<lparr>trace := trace st @ [UrlCrawled (pr_url result)],
           saved := save result (saved st),
           allResults := allResults st @ [result]\<rparr>
      else st\<lparr>trace := trace st @ [UrlFailed (pr_url result)]\<rparr>)"

text \<open>
  The loop over the results of a batch. On an entry that is \<open>null\<close> the \<open>else\<close> branch
  reads \<open>result.url\<close> and throws (\<open>False\<close>); the entries before it stay recorded.
\<close>

fun record_results :: "save_one \<Rightarrow> sched_state \<Rightarrow> page_result option list \<Rightarrow> bool \<times> sched_state" where
  "record_results save st [] = (True, st)"
| "record_results save st (None # rest) = (False, st)"
| "record_results save st (Some result # rest) =
     record_results save (record_result save st result) rest"

text \<open>
  The \<open>try\<close> block of one attempt at a batch; \<open>False\<close> is a throw. An asynchronous answer
  whose polled result has no \<open>crawled_urls\<close> falls through to the test for \<open>results\<close>, which
  are absent, and throws \<open>Unexpected response format\<close>.
\<close>

definition attempt_batch ::
  "post_api \<Rightarrow> poll_api \<Rightarrow> save_one \<Rightarrow> save_many \<Rightarrow> string list \<Rightarrow> sched_state \<Rightarrow> bool \<times> sched_state"
where
  "attempt_batch post poll save save_polled batch st =
     (let st1 = st\<lparr>trace := trace st @ [Post batch], posts := posts st + 1\<rparr>
      in case post (posts st) batch of
           PostThrows e \<Rightarrow> (False, st1)
         | PostData task_id results \<Rightarrow>
             if task_id \<noteq> [] \<and> results = NoResults then
               (case poll (posts st) task_id of
                  PollThrows e \<Rightarrow> (False, st1)
                | PollPages pages \<Rightarrow> (False, st1\<lparr>saved := save_polled pages (saved st1)\<rparr>)
                | PollSingle crawled_urls \<Rightarrow> (crawled_urls, st1))
             else
               (case results of
                  Results rs \<Rightarrow> record_results save st1 rs
                | NotAnArray \<Rightarrow> (False, st1)
                | NoResults \<Rightarrow> (False, st1)))"

text \<open>\<open>while (retryCount < maxRetries && !batchSuccess)\<close> with its \<open>catch\<close>.\<close>

function retry_loop ::
  "post_api \<Rightarrow> poll_api \<Rightarrow> save_one \<Rightarrow> save_many \<Rightarrow> nat \<Rightarrow> nat \<Rightarrow> string list
     \<Rightarrow> nat \<Rightarrow> sched_state \<Rightarrow> sched_state"
where
  "retry_loop post poll save save_polled maxRetries coolOffDelay batch retryCount st =
     (if retryCount < maxRetries then
        (case attempt_batch post poll save save_polled batch st of
           (True, st') \<Rightarrow> st'
         | (False, st') \<Rightarrow>
             (let retryCount' = retryCount + 1;
                  st'' = (if retryCount' < maxRetries
                          then st'\<lparr>trace := trace st' @ [Delay (coolOffDelay * retryCount')]\<rparr>
                          else st')
              in retry_loop post poll save save_polled maxRetries coolOffDelay batch retryCount' st''))
      else st)"
  by pat_completeness auto
termination
  by (relation "measure (\<lambda>(post, poll, save, save_polled, maxRetries, coolOffDelay, batch,
        retryCount, st). maxRetries - retryCount)") auto

declare retry_loop.simps [simp del]

text \<open>The state after the loop over the batches has dealt with one batch: the event
  \<open>batch_start\<close>, the attempts, and the cool-off when another batch follows.\<close>

definition process_batch ::
  "post_api \<Rightarrow> poll_api \<Rightarrow> save_one \<Rightarrow> save_many \<Rightarrow> nat \<Rightarrow> nat \<Rightarrow> nat \<Rightarrow> nat \<Rightarrow> string list
     \<Rightarrow> sched_state \<Rightarrow> sched_state"
where
  "process_batch post poll save save_polled maxRetries coolOffDelay totalBatches batchIndex batch st =
     (let st1 = st\<lparr>trace := trace st @ [BatchStart (batchIndex + 1) totalBatches batch]\<rparr>;
          st2 = retry_loop post poll save save_polled maxRetries coolOffDelay batch 0 st1
      in if batchIndex < totalBatches - 1 then st2\<lparr>trace := trace st2 @ [Delay coolOffDelay]\<rparr>
         else st2)"

text \<open>The loop over the batches.\<close>

fun run_batches ::
  "post_api \<Rightarrow> poll_api \<Rightarrow> save_one \<Rightarrow> save_many \<Rightarrow> nat \<Rightarrow> nat \<Rightarrow> nat \<Rightarrow> nat
     \<Rightarrow> string list list \<Rightarrow> sched_state \<Rightarrow> sched_state"
where
  "run_batches post poll save save_polled maxRetries coolOffDelay totalBatches batchIndex [] st = st"
| "run_batches post poll save save_polled maxRetries coolOffDelay totalBatches batchIndex
     (batch # rest) st =
     run_batches post poll save save_polled maxRetries coolOffDelay totalBatches (batchIndex + 1) rest
       (process_batch post poll save save_polled maxRetries coolOffDelay totalBatches batchIndex
          batch st)"

text \<open>
  \<open>intelligentBatchCrawl\<close>, up to the call of \<open>createAggregatedResult\<close>: the pages in
  \<open>allResults\<close> and what was done, starting from no results and the table as it is.
  The three settings are the numbers read by \<open>parseInt\<close>, taken to be natural numbers.
  \<open>None\<close> is the run that does not end.
\<close>

definition intelligentBatchCrawl ::
  "post_api \<Rightarrow> poll_api \<Rightarrow> save_one \<Rightarrow> save_many \<Rightarrow> nat \<Rightarrow> nat \<Rightarrow> nat
     \<Rightarrow> string list \<Rightarrow> save_state \<Rightarrow> sched_state option"
where
  "intelligentBatchCrawl post poll save save_polled maxBatchSize coolOffDelay maxRetries urls table =
     (case split_batches urls maxBatchSize 0 [] of
        None \<Rightarrow> None
      | Some batches \<Rightarrow>
          Some (run_batches post poll save save_polled maxRetries coolOffDelay (length batches) 0
                  batches \<lparr>allResults = [], trace = [], posts = 0, saved = table\<rparr>))"

text \<open>
  The attempt at the batch fails when \<open>n\<close> requests were made before it: the request
  throws; or the answer has neither results nor a task; or its results are not an
  array; or the task is polled and the poller throws or returns a result without
  \<open>crawled_urls\<close>; or an entry of the results is \<open>null\<close>.
\<close>

definition attempt_fails_at :: "post_api \<Rightarrow> poll_api \<Rightarrow> nat \<Rightarrow> string list \<Rightarrow> bool" where
  "attempt_fails_at post poll n batch =
     (case post n batch of
        PostThrows e \<Rightarrow> True
      | PostData task_id results \<Rightarrow>
          (case results of
             Results rs \<Rightarrow> None \<in> set rs
           | NotAnArray \<Rightarrow> True
           | NoResults \<Rightarrow>
               task_id = [] \<or>
               (case poll n task_id of
                  PollThrows e \<Rightarrow> True
                | PollPages pages \<Rightarrow> True
                | PollSingle crawled_urls \<Rightarrow> \<not> crawled_urls)))"

text \<open>The requests and the waits among the events.\<close>

fun is_request :: "sched_event \<Rightarrow> bool" where
  "is_request (Post batch) = True"
| "is_request (Delay ms) = True"
| "is_request event = False"

definition requests :: "sched_event list \<Rightarrow> sched_event list" where
  "requests events = filter is_request events"

text \<open>What the scheduler does on a batch that fails at every attempt: attempts
  \<open>retryCount + 1\<close> to \<open>maxRetries\<close>, each but the last followed by its back-off.\<close>

definition failed_attempts :: "nat \<Rightarrow> nat \<Rightarrow> string list \<Rightarrow> nat \<Rightarrow> sched_event list" where
  "failed_attempts maxRetries coolOffDelay batch retryCount =
     concat (map (\<lambda>attemptNumber.
                    Post batch # (if attemptNumber < maxRetries
                                  then [Delay (coolOffDelay * attemptNumber)] else []))
               [retryCount + 1 ..< maxRetries + 1])"

text \<open>The accumulated results of \<open>st'\<close> are those of \<open>st\<close> and pages that succeeded.\<close>

definition only_successes :: "sched_state \<Rightarrow> sched_state \<Rightarrow> bool" where
  "only_successes st st' = (\<forall>r\<in>set (allResults st'). r \<in> set (allResults st) \<or> pr_success r)"

section \<open>Smart site crawl (\<open>smartSiteCrawl\<close>)\<close>

definition failed_result :: "string \<Rightarrow> string \<Rightarrow> crawl_result" where
  "failed_result url err =
     \<lparr>cr_url = url, cr_status = ''failed'', cr_content = [], cr_markdown = [],
      cr_rawMarkdown = [], cr_fitMarkdown = [], cr_title = None, cr_page_index = 0,
      cr_error = err\<rparr>"

text \<open>
  \<open>smartSiteCrawlNative\<close> and \<open>smartSiteCrawlManual\<close>, each given the outcome of the steps
  inside its \<open>try\<close> block (\<open>Inl\<close> is the message of the error thrown there). The native
  strategy rethrows; the manual strategy returns a failed result.
\<close>

definition smartSiteCrawlNative :: "string + crawl_result \<Rightarrow> string + crawl_result" where
  "smartSiteCrawlNative steps =
     (case steps of
        Inr result \<Rightarrow> Inr result
      | Inl e \<Rightarrow> Inl (''Native deep crawl failed: '' @ e))"

definition smartSiteCrawlManual :: "string \<Rightarrow> string + crawl_result \<Rightarrow> string + crawl_result" where
  "smartSiteCrawlManual url steps =
     (case steps of
        Inr result \<Rightarrow> Inr result
      | Inl e \<Rightarrow> Inr (failed_result url (''Smart crawl failed: '' @ e)))"

text \<open>
  The steps inside the \<open>try\<close> of the manual strategy: the links discovered on the start
  page (at least the start address itself) are filtered and prioritized, which throws
  when the start address does not parse; \<open>crawl\<close> stands for the steps that follow
  (crawling in batches, saving the pages, aggregating).
\<close>

definition smartSiteCrawlManual_steps ::
  "url_parser \<Rightarrow> int \<Rightarrow> string list \<Rightarrow> (string list \<Rightarrow> string + crawl_result) \<Rightarrow> string
     \<Rightarrow> string + crawl_result"
where
  "smartSiteCrawlManual_steps parse maxUrls discoveredUrls crawl url =
     (case filterAndPrioritizeUrls parse maxUrls discoveredUrls url of
        None \<Rightarrow> Inl ''Invalid URL''
      | Some prioritizedUrls \<Rightarrow> crawl prioritizedUrls)"

text \<open>
  \<open>smartSiteCrawl\<close>. The two flags are \<open>signal?.aborted\<close> where it is read before the
  native strategy (inside the \<open>try\<close>) and before the manual one.
\<close>

definition smartSiteCrawl ::
  "bool \<Rightarrow> bool \<Rightarrow> string + crawl_result \<Rightarrow> string + crawl_result \<Rightarrow> string \<Rightarrow> string + crawl_result"
where
  "smartSiteCrawl aborted_before aborted_after native_steps manual_steps url =
     (case (if aborted_before then Inl ''Crawl was cancelled''
            else smartSiteCrawlNative native_steps) of
        Inr result \<Rightarrow> Inr result
      | Inl nativeError \<Rightarrow>
          if aborted_after then Inl ''Crawl was cancelled''
          else
            (case smartSiteCrawlManual url manual_steps of
               Inr result \<Rightarrow> Inr result
             | Inl manualError \<Rightarrow>
                 Inr (failed_result url
                        (''All crawl methods failed. Native: '' @ nativeError @
                         ''. Manual: '' @ manualError))))"

section \<open>Example inputs\<close>

text \<open>A run of \<open>n\<close> hyphens: one word of \<open>n\<close> punctuation characters.\<close>

definition dashes :: "nat \<Rightarrow> string" where
  "dashes n = replicate n (CHR ''-'')"

text \<open>A successful entry of \<open>results\<close> with the given address and markdown text.\<close>

definition example_page :: "string \<Rightarrow> string \<Rightarrow> page_result" where
  "example_page address text =
     \<lparr>pr_url = address, pr_success = True, pr_content = text, pr_markdown = MarkdownText text,
      pr_cleaned_html = [], pr_html = [], pr_extracted_content = [], pr_title = None,
      pr_error_message = []\<rparr>"

text \<open>A completed \<open>CrawlResult\<close> with the given address and content and no title.\<close>

definition example_result :: "string \<Rightarrow> string \<Rightarrow> crawl_result" where
  "example_result address text =
     \<lparr>cr_url = address, cr_status = ''completed'', cr_content = text, cr_markdown = [],
      cr_rawMarkdown = [], cr_fitMarkdown = [], cr_title = None, cr_page_index = 0,
      cr_error = []\<rparr>"

text \<open>A rounding that changes nothing: the rounding of doubles, on values that are
  doubles.\<close>

definition exact_rounding :: rounding where
  "exact_rounding x = Num x"

text \<open>The double \<open>2\<^sup>1\<^sup>0\<^sup>2\<^sup>3\<close>, about \<open>8.99e307\<close>.\<close>

definition huge :: real where
  "huge = 2 ^ 1023"

definition empty_table :: save_state where
  "empty_table = \<lparr>store = Map.empty, upserts = []\<rparr>"

text \<open>
  A backend for two batches. The batch of \<open>https://a.com/x\<close> fails three times, each
  time in another way: the first request throws; the second is answered with a task,
  whose polled pages give no \<open>crawled_urls\<close>; the third is answered with results, the
  second of which is \<open>null\<close>. Every other batch is answered with a page for each of its
  links.
\<close>

definition example_post :: post_api where
  "example_post n batch =
     (if batch = [''https://a.com/x''] then
        (if n = 0 then PostThrows ''Network Error''
         else if n = 1 then PostData ''task-1'' NoResults
         else PostData [] (Results [Some (example_page ''https://a.com/x'' ''hello''), None]))
      else PostData [] (Results (map (\<lambda>address. Some (example_page address ''world'')) batch)))"

definition example_poll :: poll_api where
  "example_poll n task = PollPages [Some (example_page ''https://a.com/x'' ''hello'')]"

text \<open>The state in which \<open>intelligentBatchCrawl\<close> starts, with an empty table.\<close>

definition empty_run :: sched_state where
  "empty_run = \<lparr>allResults = [], trace = [], posts = 0, saved = empty_table\<rparr>"

section \<open>Properties of the text chunker\<close>

subsection \<open>Splitting, trimming and the token estimate\<close>

lemma split_runs_not_Nil [simp]: "split_runs P s \<noteq> []"
  by (induction P s rule: split_runs.induct) (auto split: list.splits)

lemma split_on_not_Nil [simp]: "split_on sep s \<noteq> []"
  by (induction sep s rule: split_on.induct) (auto split: list.splits)

lemma length_split_runs_pos: "1 \<le> length (split_runs P s)"
  using split_runs_not_Nil [of P s] by (cases "split_runs P s") auto

lemma length_split_runs_append:
  "length (split_runs P xs) \<le> length (split_runs P (xs @ ys))"
proof (induction P xs rule: split_runs.induct)
  case (1 P)
  then show ?case using length_split_runs_pos [of P ys] by simp
next
  case (2 P c cs)
  show ?case
  proof (cases "P c")
    case True
    show ?thesis
    proof (cases "\<forall>x\<in>set cs. P x")
      case all: True
      then have e1: "dropWhile P cs = []" by simp
      have e2: "dropWhile P (cs @ ys) = dropWhile P ys"
        using all by (simp add: dropWhile_append)
      show ?thesis
        using True length_split_runs_pos [of P "dropWhile P ys"]
        by (simp add: e1 e2 del: dropWhile_eq_Nil_conv)
    next
      case False
      then have "dropWhile P (cs @ ys) = dropWhile P cs @ ys"
        by (auto simp: dropWhile_append)
      then show ?thesis using True 2(1) by simp
    qed
  next
    case False
    then show ?thesis using 2(2) by (auto split: list.splits)
  qed
qed

lemma length_split_runs_dropWhile:
  "length (split_runs P (dropWhile P s)) \<le> length (split_runs P s)"
  by (cases s) auto

lemma dropWhile_is_trim_append: "\<exists>t. dropWhile is_ws s = trim s @ t"
proof -
  have "rev (dropWhile is_ws s) =
          takeWhile is_ws (rev (dropWhile is_ws s)) @ dropWhile is_ws (rev (dropWhile is_ws s))"
    by simp
  then have "dropWhile is_ws s = trim s @ rev (takeWhile is_ws (rev (dropWhile is_ws s)))"
    unfolding trim_def by (metis rev_append rev_rev_ident)
  then show ?thesis ..
qed

lemma length_filter_dropWhile:
  "length (filter Q (dropWhile P s)) \<le> length (filter Q s)"
proof -
  have "length (filter Q (takeWhile P s @ dropWhile P s)) = length (filter Q s)" by simp
  then show ?thesis unfolding filter_append length_append by linarith
qed

lemma length_filter_trim: "length (filter Q (trim s)) \<le> length (filter Q s)"
proof -
  obtain t where t: "dropWhile is_ws s = trim s @ t" using dropWhile_is_trim_append by blast
  have "length (filter Q (trim s)) \<le> length (filter Q (dropWhile is_ws s))"
    unfolding t by simp
  also have "\<dots> \<le> length (filter Q s)" by (rule length_filter_dropWhile)
  finally show ?thesis .
qed

lemma length_split_runs_trim:
  "length (split_runs is_ws (trim s)) \<le> length (split_runs is_ws s)"
proof -
  obtain t where t: "dropWhile is_ws s = trim s @ t" using dropWhile_is_trim_append by blast
  have "length (split_runs is_ws (trim s)) \<le> length (split_runs is_ws (dropWhile is_ws s))"
    unfolding t by (rule length_split_runs_append)
  also have "\<dots> \<le> length (split_runs is_ws s)" by (rule length_split_runs_dropWhile)
  finally show ?thesis .
qed

lemma estimateTokens_trim: "estimateTokens (trim s) \<le> estimateTokens s"
proof -
  have a: "length (filter is_punct (trim s)) \<le> length (filter is_punct s)"
    by (rule length_filter_trim)
  have b: "length (filter is_ws (trim s)) \<le> length (filter is_ws s)"
    by (rule length_filter_trim)
  have c: "(length (filter is_ws (trim s)) + 3) div 4 \<le> (length (filter is_ws s) + 3) div 4"
    using b by (simp add: div_le_mono)
  show ?thesis
    unfolding estimateTokens_def Let_def
    using a c length_split_runs_trim [of s] by linarith
qed

subsection \<open>The token bound of the chunks\<close>

lemma chunk_ok_trim:
  assumes "estimateTokens cur \<le> M \<or> cur \<in> W"
  shows "chunk_ok M W (trim cur)"
proof (cases "estimateTokens cur \<le> M")
  case True
  then show ?thesis
    using estimateTokens_trim [of cur] by (simp add: chunk_ok_def)
next
  case False
  then show ?thesis using assms by (auto simp: chunk_ok_def)
qed

lemma foldl_inv:
  assumes "\<And>st x. x \<in> set xs \<Longrightarrow> I st \<Longrightarrow> I (f st x)" and "I st"
  shows "I (foldl f st xs)"
  using assms by (induction xs arbitrary: st) auto

lemma word_step_inv:
  assumes "chunk_inv M W st" and "word \<in> W"
  shows "chunk_inv M W (word_step M st word)"
proof (cases st)
  case (Pair chunks cur)
  show ?thesis
    using assms chunk_ok_trim [of cur M W]
    unfolding Pair by (auto simp: chunk_inv_def Let_def)
qed

lemma push_inv:
  assumes "chunk_inv M W (chunks, cur)"
  shows "chunk_inv M W (if cur \<noteq> [] then (chunks @ [trim cur], []) else (chunks, cur))"
  using assms chunk_ok_trim [of cur M W] by (auto simp: chunk_inv_def)

lemma sentence_step_inv:
  assumes inv: "chunk_inv M W st" and words: "set (split_on '' '' sentence) \<subseteq> W"
  shows "chunk_inv M W (sentence_step M st sentence)"
proof (cases st)
  case (Pair chunks cur)
  let ?st = "if cur \<noteq> [] then (chunks @ [trim cur], []) else (chunks, cur)"
  have p: "chunk_inv M W ?st" using inv unfolding Pair by (rule push_inv)
  have w: "chunk_inv M W (foldl (word_step M) ?st (split_on '' '' sentence))"
    using p words by (intro foldl_inv [where I = "chunk_inv M W"] word_step_inv) auto
  have s: "\<not> M < estimateTokens sentence \<Longrightarrow> chunk_inv M W (fst ?st, sentence)"
    using p by (auto simp: chunk_inv_def)
  have t: "\<And>test. estimateTokens test \<le> M \<Longrightarrow> chunk_inv M W (chunks, test)"
    using inv unfolding Pair by (simp add: chunk_inv_def)
  show ?thesis
    unfolding Pair sentence_step.simps Let_def
    using w s t by (simp split: if_splits)
qed

lemma paragraph_step_inv:
  assumes inv: "chunk_inv M W st"
    and words: "\<And>s. s \<in> set (split_runs is_sentence_end paragraph) \<Longrightarrow> set (split_on '' '' s) \<subseteq> W"
  shows "chunk_inv M W (paragraph_step M st paragraph)"
proof (cases st)
  case (Pair chunks cur)
  let ?st = "if cur \<noteq> [] then (chunks @ [trim cur], []) else (chunks, cur)"
  have p: "chunk_inv M W ?st" using inv unfolding Pair by (rule push_inv)
  have w: "chunk_inv M W (foldl (sentence_step M) ?st (split_runs is_sentence_end paragraph))"
    using p words by (intro foldl_inv [where I = "chunk_inv M W"] sentence_step_inv) auto
  have s: "\<not> M < estimateTokens paragraph \<Longrightarrow> chunk_inv M W (fst ?st, paragraph)"
    using p by (auto simp: chunk_inv_def)
  have t: "\<And>test. estimateTokens test \<le> M \<Longrightarrow> chunk_inv M W (chunks, test)"
    using inv unfolding Pair by (simp add: chunk_inv_def)
  show ?thesis
    unfolding Pair paragraph_step.simps Let_def
    using w s t by (simp split: if_splits)
qed

lemma paragraphs_inv:
  "chunk_inv M (set (words_of text))
     (foldl (paragraph_step M) ([], []) (split_on [CHR 0x0A, CHR 0x0A] text))"
proof (rule foldl_inv [where I = "chunk_inv M (set (words_of text))"])
  show "chunk_inv M (set (words_of text)) ([], [])" by (simp add: chunk_inv_def)
next
  fix st x
  assume x: "x \<in> set (split_on [CHR 0x0A, CHR 0x0A] text)"
    and inv: "chunk_inv M (set (words_of text)) st"
  show "chunk_inv M (set (words_of text)) (paragraph_step M st x)"
    using inv
  proof (rule paragraph_step_inv)
    fix s assume "s \<in> set (split_runs is_sentence_end x)"
    then show "set (split_on '' '' s) \<subseteq> set (words_of text)"
      using x by (auto simp: words_of_def)
  qed
qed

text \<open>A word of the chunker has no space and no sentence punctuation in it: no split
  of the chunker divides it further.\<close>

lemma split_runs_pieces:
  "w \<in> set (split_runs P s) \<Longrightarrow> x \<in> set w \<Longrightarrow> \<not> P x"
proof (induction P s arbitrary: w x rule: split_runs.induct)
  case (1 P)
  then show ?case by simp
next
  case (2 P c cs)
  show ?case
  proof (cases "P c")
    case True
    then have "w = [] \<or> w \<in> set (split_runs P (dropWhile P cs))" using 2(3) by simp
    then show ?thesis
    proof
      assume "w = []" then show ?thesis using 2(4) by simp
    next
      assume "w \<in> set (split_runs P (dropWhile P cs))"
      then show ?thesis using 2(4) by (rule 2(1) [OF True])
    qed
  next
    case False
    obtain v vs where vs: "split_runs P cs = v # vs"
      using split_runs_not_Nil [of P cs] by (cases "split_runs P cs") auto
    then have "w = c # v \<or> w \<in> set vs" using 2(3) False by simp
    then show ?thesis
    proof
      assume w: "w = c # v"
      have v: "v \<in> set (split_runs P cs)" using vs by simp
      have "\<not> P y" if "y \<in> set v" for y using v that by (rule 2(2) [OF False])
      then show ?thesis using 2(4) False w by auto
    next
      assume "w \<in> set vs"
      then have "w \<in> set (split_runs P cs)" using vs by simp
      then show ?thesis using 2(4) by (rule 2(2) [OF False])
    qed
  qed
qed

lemma split_on_pieces_subset:
  "w \<in> set (split_on sep s) \<Longrightarrow> x \<in> set w \<Longrightarrow> x \<in> set s"
proof (induction sep s arbitrary: w x rule: split_on.induct)
  case (1 sep)
  then show ?case by simp
next
  case (2 sep c cs)
  show ?case
  proof (cases "sep \<noteq> [] \<and> prefix sep (c # cs)")
    case True
    then have "w = [] \<or> w \<in> set (split_on sep (drop (length sep) (c # cs)))"
      using 2(3) by auto
    then show ?thesis
    proof
      assume "w = []" then show ?thesis using 2(4) by simp
    next
      assume "w \<in> set (split_on sep (drop (length sep) (c # cs)))"
      then have "x \<in> set (drop (length sep) (c # cs))" using 2(4) by (rule 2(1) [OF True])
      then show ?thesis by (rule in_set_dropD)
    qed
  next
    case False
    obtain v vs where vs: "split_on sep cs = v # vs"
      using split_on_not_Nil [of sep cs] by (cases "split_on sep cs") auto
    have "split_on sep (c # cs) = (c # v) # vs"
      using False vs by simp
    then have "w = c # v \<or> w \<in> set vs" using 2(3) by simp
    then show ?thesis
    proof
      assume w: "w = c # v"
      have v: "v \<in> set (split_on sep cs)" using vs by simp
      have "y \<in> set cs" if "y \<in> set v" for y using v that by (rule 2(2) [OF False])
      then show ?thesis using 2(4) w by auto
    next
      assume "w \<in> set vs"
      then have "w \<in> set (split_on sep cs)" using vs by simp
      then have "x \<in> set cs" using 2(4) by (rule 2(2) [OF False])
      then show ?thesis by simp
    qed
  qed
qed

lemma split_on_char_pieces:
  "w \<in> set (split_on [c] s) \<Longrightarrow> c \<notin> set w"
proof (induction s arbitrary: w)
  case Nil
  then show ?case by simp
next
  case (Cons x xs)
  show ?case
  proof (cases "x = c")
    case True
    then have "w = [] \<or> w \<in> set (split_on [c] xs)" using Cons.prems by simp
    then show ?thesis using Cons.IH by auto
  next
    case False
    obtain v vs where vs: "split_on [c] xs = v # vs"
      using split_on_not_Nil [of "[c]" xs] by (cases "split_on [c] xs") auto
    have "split_on [c] (x # xs) = (x # v) # vs" using False vs by simp
    then have "w = x # v \<or> w \<in> set vs" using Cons.prems by simp
    moreover have "c \<notin> set v" using Cons.IH [of v] vs by simp
    moreover have "w \<in> set vs \<Longrightarrow> c \<notin> set w" using Cons.IH [of w] vs by simp
    ultimately show ?thesis using False by auto
  qed
qed

lemma words_of_atomic:
  assumes "w \<in> set (words_of text)"
  shows "CHR '' '' \<notin> set w \<and> (\<forall>x\<in>set w. \<not> is_sentence_end x)"
proof -
  obtain p s where s: "s \<in> set (split_runs is_sentence_end p)" and w: "w \<in> set (split_on '' '' s)"
    using assms by (auto simp: words_of_def)
  have "\<not> is_sentence_end x" if "x \<in> set w" for x
  proof -
    have "x \<in> set s" using w that by (rule split_on_pieces_subset)
    with s show ?thesis by (rule split_runs_pieces)
  qed
  then show ?thesis using split_on_char_pieces [OF w] by simp
qed

lemma set_trim_subset: "set (trim s) \<subseteq> set s"
proof -
  have "set (trim s) \<subseteq> set (dropWhile is_ws s)"
    unfolding trim_def using set_dropWhileD [of _ is_ws "rev (dropWhile is_ws s)"] by auto
  then show ?thesis using set_dropWhileD [of _ is_ws s] by auto
qed

lemma chunkText_nonempty:
  "\<not> estimateTokens T \<le> M \<Longrightarrow> c \<in> set (chunkText T M) \<Longrightarrow> c \<noteq> []"
  by (auto simp: chunkText_def split: prod.splits if_splits)

lemma oversized_piece_shape:
  assumes "c \<noteq> []" and "c = trim w" and "CHR '' '' \<notin> set w"
  shows "spec_atomic_word c \<or> (\<exists>x\<in>set c. is_ws x \<and> x \<noteq> CHR '' '')"
  using assms set_trim_subset [of w] unfolding spec_atomic_word_def by blast

text \<open>
  C7, as the code has it. If the estimate of the text is at most the bound, \<open>chunkText\<close>
  returns the text as its only chunk. Otherwise every chunk has an estimate of at most
  the bound, unless the chunk is one piece of the word-level split
  \<open>sentence.split(' ')\<close>, trimmed, whose own estimate exceeds the bound. Such a piece has
  no space and no sentence punctuation in it, and it is a single atomic word unless it
  holds white space other than the space character (a tab, a line break, a no-break
  space), at which the chunker does not split.
\<close>

theorem chunkText_bound:
  "(estimateTokens T \<le> M \<longrightarrow> chunkText T M = [T]) \<and>
   (\<not> estimateTokens T \<le> M \<longrightarrow>
      (\<forall>c\<in>set (chunkText T M).
         estimateTokens c \<le> M \<or>
         ((\<exists>w\<in>set (words_of T).
             c = trim w \<and> M < estimateTokens w \<and>
             CHR '' '' \<notin> set w \<and> (\<forall>x\<in>set w. \<not> is_sentence_end x)) \<and>
          (spec_atomic_word c \<or> (\<exists>x\<in>set c. is_ws x \<and> x \<noteq> CHR '' '')))))"
proof (intro conjI impI ballI)
  assume "estimateTokens T \<le> M"
  then show "chunkText T M = [T]" by (simp add: chunkText_def)
next
  fix c
  assume big: "\<not> estimateTokens T \<le> M" and c: "c \<in> set (chunkText T M)"
  obtain chunks cur where
    st: "foldl (paragraph_step M) ([], []) (split_on [CHR 0x0A, CHR 0x0A] T) = (chunks, cur)"
    by (cases "foldl (paragraph_step M) ([], []) (split_on [CHR 0x0A, CHR 0x0A] T)")
  have inv: "chunk_inv M (set (words_of T)) (chunks, cur)"
    using paragraphs_inv [of M T] unfolding st .
  have ne: "c \<noteq> []" using big c by (rule chunkText_nonempty)
  have "c \<in> set chunks \<or> (c = trim cur \<and> cur \<noteq> [])"
    using c big by (auto simp: chunkText_def st trim_def split: if_splits)
  then have "chunk_ok M (set (words_of T)) c"
    using inv chunk_ok_trim [of cur M "set (words_of T)"] by (auto simp: chunk_inv_def)
  then have "estimateTokens c \<le> M \<or>
     (\<exists>w\<in>set (words_of T).
        c = trim w \<and> M < estimateTokens w \<and>
        CHR '' '' \<notin> set w \<and> (\<forall>x\<in>set w. \<not> is_sentence_end x))"
    using words_of_atomic [of _ T] unfolding chunk_ok_def by blast
  then show "estimateTokens c \<le> M \<or>
     ((\<exists>w\<in>set (words_of T).
         c = trim w \<and> M < estimateTokens w \<and>
         CHR '' '' \<notin> set w \<and> (\<forall>x\<in>set w. \<not> is_sentence_end x)) \<and>
      (spec_atomic_word c \<or> (\<exists>x\<in>set c. is_ws x \<and> x \<noteq> CHR '' '')))"
    using oversized_piece_shape [OF ne] by blast
qed

text \<open>
  A text within the bound comes back whole. With a bound of 2, the text \<open>a-b-c x\<close> gives
  the chunks \<open>a-b-c\<close> and \<open>x\<close>: the first is a word estimated at 3.
\<close>

theorem chunkText_bound_witness:
  "estimateTokens ''a b'' \<le> 5 \<and> chunkText ''a b'' 5 = [''a b''] \<and>
   \<not> estimateTokens ''a-b-c x'' \<le> 2 \<and>
   ''a-b-c'' \<in> set (chunkText ''a-b-c x'' 2) \<and>
   \<not> estimateTokens ''a-b-c'' \<le> 2 \<and>
   (\<exists>w\<in>set (words_of ''a-b-c x'').
      ''a-b-c'' = trim w \<and> 2 < estimateTokens w \<and>
      CHR '' '' \<notin> set w \<and> (\<forall>x\<in>set w. \<not> is_sentence_end x)) \<and>
   (spec_atomic_word ''a-b-c'' \<or> (\<exists>x\<in>set ''a-b-c''. is_ws x \<and> x \<noteq> CHR '' ''))"
proof -
  have a: "estimateTokens ''a b'' \<le> 5" by code_simp
  have b: "\<not> estimateTokens ''a-b-c x'' \<le> 2" by code_simp
  have c: "''a-b-c'' \<in> set (chunkText ''a-b-c x'' 2)" by code_simp
  have d: "\<not> estimateTokens ''a-b-c'' \<le> 2" by code_simp
  show ?thesis
    using chunkText_bound [of "''a b''" 5] chunkText_bound [of "''a-b-c x''" 2] a b c d
    by blast
qed

text \<open>
  C7 as stated fails: with a bound of 2, the text \<open>foo bar\<close>, line break, \<open>baz qux\<close> gives
  the chunks \<open>foo\<close>, \<open>bar\<close>-line break-\<open>baz\<close> and \<open>qux\<close>. The middle chunk is estimated at 3 and
  is not a single atomic word: it is the two words \<open>bar\<close> and \<open>baz\<close>, each estimated at 1,
  which the split on the space character leaves together.
\<close>

theorem chunkText_bound_counterexample:
  "\<not> estimateTokens (''foo bar'' @ [CHR 0x0A] @ ''baz qux'') \<le> 2 \<and>
   chunkText (''foo bar'' @ [CHR 0x0A] @ ''baz qux'') 2 =
     [''foo'', ''bar'' @ [CHR 0x0A] @ ''baz'', ''qux''] \<and>
   \<not> estimateTokens (''bar'' @ [CHR 0x0A] @ ''baz'') \<le> 2 \<and>
   \<not> spec_atomic_word (''bar'' @ [CHR 0x0A] @ ''baz'') \<and>
   estimateTokens ''bar'' = 1 \<and> estimateTokens ''baz'' = 1"
  by code_simp

subsection \<open>What chunking keeps of the text\<close>



lemma filter_dropWhile_neg:
  assumes "\<And>c. P c \<Longrightarrow> \<not> Q c"
  shows "filter Q (dropWhile P s) = filter Q s"
proof -
  have "filter Q (takeWhile P s @ dropWhile P s) = filter Q (dropWhile P s)"
    unfolding filter_append using assms by (auto simp: filter_empty_conv dest: set_takeWhileD)
  then show ?thesis by simp
qed

lemma content_of_trim [simp]: "content_of (trim s) = content_of s"
proof -
  have "filter kept (rev (dropWhile is_ws (rev (dropWhile is_ws s)))) =
        rev (filter kept (dropWhile is_ws (rev (dropWhile is_ws s))))"
    by (simp add: rev_filter)
  also have "\<dots> = rev (filter kept (rev (dropWhile is_ws s)))"
    by (simp add: filter_dropWhile_neg kept_def)
  also have "\<dots> = filter kept (dropWhile is_ws s)" by (simp add: rev_filter)
  also have "\<dots> = filter kept s" by (simp add: filter_dropWhile_neg kept_def)
  finally show ?thesis by (simp add: content_of_def trim_def)
qed

lemma content_of_append [simp]: "content_of (a @ b) = content_of a @ content_of b"
  by (simp add: content_of_def)

lemma content_of_Nil [simp]: "content_of [] = []"
  by (simp add: content_of_def)

lemma content_of_seps [simp]:
  "content_of (CHR '' '' # s) = content_of s"
  "content_of (CHR ''.'' # s) = content_of s"
  "content_of (CHR 0x0A # s) = content_of s"
  by (simp_all add: content_of_def kept_def is_ws_def is_sentence_end_def)









lemma non_whitespace_trim [simp]: "non_whitespace (trim s) = non_whitespace s"
proof -
  have "filter (\<lambda>c. \<not> is_ws c) (rev (dropWhile is_ws (rev (dropWhile is_ws s)))) =
        rev (filter (\<lambda>c. \<not> is_ws c) (dropWhile is_ws (rev (dropWhile is_ws s))))"
    by (simp add: rev_filter)
  also have "\<dots> = rev (filter (\<lambda>c. \<not> is_ws c) (rev (dropWhile is_ws s)))"
    by (simp add: filter_dropWhile_neg)
  also have "\<dots> = filter (\<lambda>c. \<not> is_ws c) (dropWhile is_ws s)" by (simp add: rev_filter)
  also have "\<dots> = filter (\<lambda>c. \<not> is_ws c) s" by (simp add: filter_dropWhile_neg)
  finally show ?thesis by (simp add: non_whitespace_def trim_def)
qed

lemma non_whitespace_append [simp]:
  "non_whitespace (a @ b) = non_whitespace a @ non_whitespace b"
  by (simp add: non_whitespace_def)

lemma non_whitespace_LF [simp]: "non_whitespace (CHR 0x0A # s) = non_whitespace s"
  by (simp add: non_whitespace_def is_ws_def)

lemma non_whitespace_Nil [simp]: "non_whitespace [] = []"
  by (simp add: non_whitespace_def)









section \<open>Properties of the embedding client\<close>

lemma embed_chunks_all:
  "length vs = length chunks \<Longrightarrow>
   \<forall>j<length chunks. api (n + j) (truncate_input (chunks ! j)) = Inr (vs ! j) \<Longrightarrow>
   embed_chunks api n chunks = Inr (map (map Num) vs)"
proof (induction chunks arbitrary: n vs)
  case Nil
  then show ?case by simp
next
  case (Cons chunk rest)
  then obtain v vs' where vs: "vs = v # vs'" and l: "length vs' = length rest"
    by (cases vs) auto
  have first: "api n (truncate_input chunk) = Inr v"
    using Cons.prems(2) vs by force
  have "\<forall>j<length rest. api (n + 1 + j) (truncate_input (rest ! j)) = Inr (vs' ! j)"
  proof (intro allI impI)
    fix j assume "j < length rest"
    then have "api (n + Suc j) (truncate_input ((chunk # rest) ! Suc j)) = Inr (vs ! Suc j)"
      using Cons.prems(2) by (metis Suc_less_eq length_Cons)
    then show "api (n + 1 + j) (truncate_input (rest ! j)) = Inr (vs' ! j)"
      using vs by simp
  qed
  then have "embed_chunks api (n + 1) rest = Inr (map (map Num) vs')"
    using l by (intro Cons.IH)
  then show ?case using first vs by simp
qed

lemma add_into_zip:
  "length acc = length v \<Longrightarrow> add_into rnd acc v = map2 (jsadd rnd) acc v"
proof (induction acc arbitrary: v)
  case Nil
  then show ?case by simp
next
  case (Cons a acc)
  then obtain x xs where v: "v = x # xs" and l: "length acc = length xs" by (cases v) auto
  show ?case using Cons.IH [OF l] v by simp
qed

lemma foldl_add_into_columns:
  "\<forall>v\<in>set vs. length v = length acc \<Longrightarrow>
   foldl (add_into rnd) acc (map (map Num) vs) =
   map (\<lambda>i. foldl (jsadd rnd) (acc ! i) (map (\<lambda>v. Num (v ! i)) vs)) [0..<length acc]"
proof (induction vs arbitrary: acc)
  case Nil
  show ?case by (simp add: map_nth)
next
  case (Cons v vs)
  let ?acc = "map2 (jsadd rnd) acc (map Num v)"
  have l: "length acc = length (map Num v)" using Cons.prems by simp
  have l2: "length ?acc = length acc" using l by simp
  have "\<forall>w\<in>set vs. length w = length ?acc" using Cons.prems l by simp
  then have "foldl (add_into rnd) ?acc (map (map Num) vs) =
             map (\<lambda>i. foldl (jsadd rnd) (?acc ! i) (map (\<lambda>v. Num (v ! i)) vs)) [0..<length ?acc]"
    by (rule Cons.IH)
  also have "\<dots> = map (\<lambda>i. foldl (jsadd rnd) (acc ! i) (map (\<lambda>v. Num (v ! i)) (v # vs)))
                     [0..<length acc]"
    unfolding l2 using l by (intro map_cong refl) simp
  finally show ?case by (simp add: add_into_zip [OF l])
qed

lemma average_embeddings_columns:
  assumes "vs \<noteq> []" and "\<forall>v\<in>set vs. length v = D"
  shows "average_embeddings rnd (map (map Num) vs) =
         Inr (map (\<lambda>i. double_mean rnd (map (\<lambda>v. v ! i) vs)) [0..<D])"
proof -
  obtain first rest where vs: "vs = first # rest" using assms(1) by (cases vs) auto
  have D: "length first = D" using assms(2) vs by simp
  have "\<forall>v\<in>set vs. length v = length (replicate D (Num 0))" using assms(2) by simp
  then have "foldl (add_into rnd) (replicate D (Num 0)) (map (map Num) vs) =
        map (\<lambda>i. foldl (jsadd rnd) (replicate D (Num 0) ! i) (map (\<lambda>v. Num (v ! i)) vs))
          [0..<length (replicate D (Num 0))]"
    by (rule foldl_add_into_columns)
  also have "\<dots> = map (\<lambda>i. foldl (jsadd rnd) (Num 0) (map (\<lambda>v. Num (v ! i)) vs)) [0..<D]"
    by (intro map_cong) simp_all
  finally have f: "foldl (add_into rnd) (replicate D (Num 0)) (map (map Num) vs) =
        map (\<lambda>i. foldl (jsadd rnd) (Num 0) (map (\<lambda>v. Num (v ! i)) vs)) [0..<D]" .
  show ?thesis
    unfolding average_embeddings_def vs [symmetric]
    using vs D f by (simp add: Let_def comp_def double_mean_def)
qed

lemma generateEmbedding_columns:
  assumes "chunkText text 4500 = chunks"
    and "length chunks > 1"
    and "length vs = length chunks"
    and "\<forall>j<length chunks. api j (truncate_input (chunks ! j)) = Inr (vs ! j)"
    and "\<forall>v\<in>set vs. length v = D"
  shows "generateEmbedding rnd (Some api) text =
         Inr (map (\<lambda>i. double_mean rnd (map (\<lambda>v. v ! i) vs)) [0..<D])"
proof -
  have ne: "vs \<noteq> []" using assms(2,3) by auto
  have "\<forall>j<length chunks. api (0 + j) (truncate_input (chunks ! j)) = Inr (vs ! j)"
    using assms(4) by simp
  then have e: "embed_chunks api 0 chunks = Inr (map (map Num) vs)"
    using assms(3) by (intro embed_chunks_all)
  have a: "average_embeddings rnd (map (map Num) vs) =
           Inr (map (\<lambda>i. double_mean rnd (map (\<lambda>v. v ! i) vs)) [0..<D])"
    using ne assms(5) by (rule average_embeddings_columns)
  show ?thesis
    using assms(2) by (simp add: generateEmbedding_def assms(1) e a Let_def)
qed

lemma to_double_exact: "is_double rnd x \<Longrightarrow> to_double rnd x = Num x"
  by (auto simp: is_double_def to_double_def)

lemma foldl_jsadd_exact:
  "\<forall>j\<in>{1..length xs}. is_double rnd (a + sum_list (take j xs)) \<Longrightarrow>
   foldl (jsadd rnd) (Num a) (map Num xs) = Num (a + sum_list xs)"
proof (induction xs arbitrary: a)
  case Nil
  show ?case by simp
next
  case (Cons x xs)
  have "is_double rnd (a + sum_list (take 1 (x # xs)))" using Cons.prems by force
  then have first: "jsadd rnd (Num a) (Num x) = Num (a + x)"
    by (simp add: to_double_exact)
  have "\<forall>j\<in>{1..length xs}. is_double rnd ((a + x) + sum_list (take j xs))"
  proof
    fix j assume "j \<in> {1..length xs}"
    then have "Suc j \<in> {1..length (x # xs)}" by simp
    then have "is_double rnd (a + sum_list (take (Suc j) (x # xs)))" using Cons.prems by blast
    then show "is_double rnd ((a + x) + sum_list (take j xs))" by (simp add: add.assoc)
  qed
  then have "foldl (jsadd rnd) (Num (a + x)) (map Num xs) = Num ((a + x) + sum_list xs)"
    by (rule Cons.IH)
  then show ?case using first by (simp add: add.assoc)
qed

lemma double_mean_exact:
  assumes "mean_exact rnd xs" and "xs \<noteq> []"
  shows "double_mean rnd xs = Num (sum_list xs / real (length xs))"
proof -
  have "\<forall>j\<in>{1..length xs}. is_double rnd (0 + sum_list (take j xs))"
    using assms(1) by (simp add: mean_exact_def)
  then have "foldl (jsadd rnd) (Num 0) (map Num xs) = Num (0 + sum_list xs)"
    by (rule foldl_jsadd_exact)
  moreover have "to_double rnd (sum_list xs / real (length xs)) = Num (sum_list xs / real (length xs))"
    using assms(1) by (simp add: mean_exact_def to_double_exact)
  ultimately show ?thesis using assms(2) by (simp add: double_mean_def)
qed

text \<open>
  C6, as the code has it. When the chunking of the text yields \<open>k > 1\<close> chunks and the
  remote call returns for the chunks the vectors \<open>v\<^sub>1 \<dots> v\<^sub>k\<close>, all of dimension \<open>D\<close>,
  \<open>generateEmbedding\<close> returns the vector of dimension \<open>D\<close> whose \<open>i\<close>-th component is the
  value of \<open>((0 + v\<^sub>1[i]) + \<dots> + v\<^sub>k[i]) / k\<close> in the arithmetic of doubles: every addition and
  the division rounded to a double, or overflowing to an infinity. It is the
  arithmetic mean \<open>(v\<^sub>1[i] + \<dots> + v\<^sub>k[i]) / k\<close> itself whenever none of these operations rounds
  or overflows.
\<close>

theorem generateEmbedding_average:
  assumes "chunkText text 4500 = chunks"
    and "length chunks > 1"
    and "length vs = length chunks"
    and "\<forall>j<length chunks. api j (truncate_input (chunks ! j)) = Inr (vs ! j)"
    and "\<forall>v\<in>set vs. length v = D"
  shows "generateEmbedding rnd (Some api) text =
           Inr (map (\<lambda>i. double_mean rnd (map (\<lambda>v. v ! i) vs)) [0..<D]) \<and>
         ((\<forall>i<D. mean_exact rnd (map (\<lambda>v. v ! i) vs)) \<longrightarrow>
            generateEmbedding rnd (Some api) text =
              Inr (map (\<lambda>i. Num ((\<Sum>v\<leftarrow>vs. v ! i) / real (length chunks))) [0..<D]))"
proof -
  have g: "generateEmbedding rnd (Some api) text =
           Inr (map (\<lambda>i. double_mean rnd (map (\<lambda>v. v ! i) vs)) [0..<D])"
    using assms by (rule generateEmbedding_columns)
  have ne: "vs \<noteq> []" using assms(2,3) by auto
  have "map (\<lambda>i. double_mean rnd (map (\<lambda>v. v ! i) vs)) [0..<D] =
        map (\<lambda>i. Num ((\<Sum>v\<leftarrow>vs. v ! i) / real (length chunks))) [0..<D]"
    if ex: "\<forall>i<D. mean_exact rnd (map (\<lambda>v. v ! i) vs)"
  proof (intro map_cong refl)
    fix i assume "i \<in> set [0..<D]"
    then have "mean_exact rnd (map (\<lambda>v. v ! i) vs)" using ex by simp
    then have "double_mean rnd (map (\<lambda>v. v ! i) vs) =
               Num (sum_list (map (\<lambda>v. v ! i) vs) / real (length (map (\<lambda>v. v ! i) vs)))"
      using ne by (intro double_mean_exact) simp_all
    then show "double_mean rnd (map (\<lambda>v. v ! i) vs) =
               Num ((\<Sum>v\<leftarrow>vs. v ! i) / real (length chunks))"
      using assms(3) by simp
  qed
  then show ?thesis using g by simp
qed

subsection \<open>A text of two chunks\<close>

lemma split_runs_none: "\<forall>c\<in>set s. \<not> P c \<Longrightarrow> split_runs P s = [s]"
  by (induction s) auto

lemma split_runs_first:
  "\<forall>x\<in>set a. \<not> P x \<Longrightarrow> P c \<Longrightarrow> split_runs P (a @ c # b) = a # split_runs P (dropWhile P b)"
  by (induction a) auto

lemma split_on_none: "c \<notin> set s \<Longrightarrow> split_on (c # sep) s = [s]"
  by (induction s) auto

lemma split_on_first:
  "c \<notin> set a \<Longrightarrow> split_on (c # sep) (a @ (c # sep) @ b) = a # split_on (c # sep) b"
  by (induction a) auto

lemma estimateTokens_dashes: "estimateTokens (dashes n) = n + 1"
  by (simp add: estimateTokens_def dashes_def split_runs_none is_ws_def is_punct_def)

lemma estimateTokens_two_paragraphs:
  "estimateTokens (dashes n @ [CHR 0x0A, CHR 0x0A] @ dashes (Suc m)) = n + Suc m + 3"
proof -
  have "split_runs is_ws (dashes n @ CHR 0x0A # (CHR 0x0A # dashes (Suc m))) =
        dashes n # split_runs is_ws (dropWhile is_ws (CHR 0x0A # dashes (Suc m)))"
    by (rule split_runs_first) (simp_all add: dashes_def is_ws_def)
  also have "dropWhile is_ws (CHR 0x0A # dashes (Suc m)) = dashes (Suc m)"
    by (simp add: dashes_def is_ws_def)
  also have "split_runs is_ws (dashes (Suc m)) = [dashes (Suc m)]"
    by (rule split_runs_none) (simp add: dashes_def is_ws_def)
  finally have w: "length (split_runs is_ws (dashes n @ [CHR 0x0A, CHR 0x0A] @ dashes (Suc m))) = 2"
    by simp
  have p: "length (filter is_punct (dashes n @ [CHR 0x0A, CHR 0x0A] @ dashes (Suc m))) = n + Suc m"
    by (simp add: dashes_def is_punct_def)
  have s: "length (filter is_ws (dashes n @ [CHR 0x0A, CHR 0x0A] @ dashes (Suc m))) = 2"
    by (simp add: dashes_def is_ws_def)
  show ?thesis unfolding estimateTokens_def Let_def w p s by simp
qed

lemma trim_dashes: "trim (dashes n) = dashes n"
  by (simp add: trim_def dashes_def is_ws_def)

lemma split_two_paragraphs:
  "split_on [CHR 0x0A, CHR 0x0A] (dashes n @ [CHR 0x0A, CHR 0x0A] @ dashes m) = [dashes n, dashes m]"
proof -
  have "split_on [CHR 0x0A, CHR 0x0A] (dashes n @ [CHR 0x0A, CHR 0x0A] @ dashes m) =
        dashes n # split_on [CHR 0x0A, CHR 0x0A] (dashes m)"
    by (rule split_on_first) (simp add: dashes_def)
  also have "split_on [CHR 0x0A, CHR 0x0A] (dashes m) = [dashes m]"
    by (rule split_on_none) (simp add: dashes_def)
  finally show ?thesis .
qed

lemma chunkText_two_paragraphs:
  assumes "n + 1 \<le> M" and "m + 2 \<le> M" and "M < n + Suc m + 3" and "0 < n"
  shows "chunkText (dashes n @ [CHR 0x0A, CHR 0x0A] @ dashes (Suc m)) M = [dashes n, dashes (Suc m)]"
proof -
  have n: "dashes n \<noteq> []" using assms(4) by (simp add: dashes_def)
  have m: "dashes (Suc m) \<noteq> []" by (simp add: dashes_def)
  have 1: "paragraph_step M ([], []) (dashes n) = ([], dashes n)"
    using assms(1) by (simp add: estimateTokens_dashes)
  have 2: "paragraph_step M ([], dashes n) (dashes (Suc m)) = ([dashes n], dashes (Suc m))"
    using assms n estimateTokens_two_paragraphs [of n m]
    by (simp add: estimateTokens_dashes trim_dashes)
  have "foldl (paragraph_step M) ([], [])
          (split_on [CHR 0x0A, CHR 0x0A] (dashes n @ [CHR 0x0A, CHR 0x0A] @ dashes (Suc m))) =
        ([dashes n], dashes (Suc m))"
    unfolding split_two_paragraphs by (simp only: foldl.simps 1 2)
  then show ?thesis
    using assms(3) n m estimateTokens_two_paragraphs [of n m]
    by (simp add: chunkText_def trim_dashes)
qed

lemma mean_exact_two:
  "mean_exact rnd [a, b] =
     (is_double rnd a \<and> is_double rnd (a + b) \<and> is_double rnd ((a + b) / 2))"
proof -
  have "{1..length [a, b]} = {1, 2}" by auto
  then show ?thesis by (simp add: mean_exact_def)
qed

lemma is_double_small: "\<bar>x\<bar> < 2 ^ 13 \<Longrightarrow> is_double exact_rounding x"
proof -
  assume "\<bar>x\<bar> < 2 ^ 13"
  also have "(2::real) ^ 13 < 2 ^ 1024" by (rule power_strict_increasing) simp_all
  finally show ?thesis by (simp add: is_double_def exact_rounding_def)
qed

text \<open>
  Two paragraphs of 2300 and 2301 hyphens are estimated at 4604 tokens and come back as
  two chunks. With a backend that answers the request number \<open>n\<close> with
  \<open>[length of the input, n]\<close>, all sums and quotients are doubles and the result is
  \<open>[4601 / 2, 1 / 2]\<close>.
\<close>

theorem generateEmbedding_average_witness:
  "length (chunkText (replicate 2300 (CHR ''-'') @ [CHR 0x0A, CHR 0x0A] @ replicate 2301 (CHR ''-'')) 4500) > 1 \<and>
   generateEmbedding exact_rounding (Some (\<lambda>n input. Inr [real (length input), real n]))
     (replicate 2300 (CHR ''-'') @ [CHR 0x0A, CHR 0x0A] @ replicate 2301 (CHR ''-'')) =
   Inr [Num (4601 / 2), Num (1 / 2)]"
proof -
  let ?api = "\<lambda>n input. Inr [real (length input), real n] :: string + real list"
  let ?text = "dashes 2300 @ [CHR 0x0A, CHR 0x0A] @ dashes (Suc 2300)"
  let ?chunks = "[dashes 2300, dashes (Suc 2300)]"
  let ?vs = "[[2300, 0], [2301, 1 :: real]]"
  have c: "chunkText ?text 4500 = ?chunks"
    by (rule chunkText_two_paragraphs) simp_all
  have l: "length ?chunks > 1" by simp
  have n: "length ?vs = length ?chunks" by simp
  have t: "truncate_input (dashes n) = dashes n" if "n + 1 \<le> 7000" for n
    using that by (simp add: truncate_input_def estimateTokens_dashes)
  have a: "\<forall>j<length ?chunks. ?api j (truncate_input (?chunks ! j)) = Inr (?vs ! j)"
    by (simp add: less_Suc_eq t) (simp add: dashes_def)
  have d: "\<forall>v\<in>set ?vs. length v = 2" by simp
  have e: "\<forall>i<2. mean_exact exact_rounding (map (\<lambda>v. v ! i) ?vs)"
    by (simp add: less_Suc_eq numeral_2_eq_2 mean_exact_two is_double_small)
  have "generateEmbedding exact_rounding (Some ?api) ?text =
        Inr (map (\<lambda>i. Num ((\<Sum>v\<leftarrow>?vs. v ! i) / real (length ?chunks))) [0..<2])"
    using generateEmbedding_average
            [where rnd = exact_rounding and api = ?api and vs = ?vs and D = 2, OF c l n a d] e
    by blast
  also have "[0..<2] = [0, Suc 0]" by (simp add: upt_rec)
  finally have g: "generateEmbedding exact_rounding (Some ?api) ?text =
                   Inr [Num (4601 / 2), Num (1 / 2)]"
    by simp
  have tx: "?text = replicate 2300 (CHR ''-'') @ [CHR 0x0A, CHR 0x0A] @ replicate 2301 (CHR ''-'')"
    by (simp add: dashes_def)
  show ?thesis using c g unfolding tx by simp
qed

lemma double_mean_overflow:
  "double_mean exact_rounding [huge, huge] = PosInfinity"
proof -
  have lt: "\<not> (2::real) ^ 1024 \<le> huge" unfolding huge_def by simp
  have "- ((2::real) ^ 1024) < 0" by simp
  also have "(0::real) < huge" unfolding huge_def by simp
  finally have neg: "\<not> huge \<le> - ((2::real) ^ 1024)" by simp
  have first: "jsadd exact_rounding (Num 0) (Num huge) = Num huge"
    using lt neg by (simp add: to_double_def exact_rounding_def)
  have "huge + huge = 2 * 2 ^ 1023" unfolding huge_def by (simp only: mult_2)
  also have "\<dots> = (2::real) ^ Suc 1023" by (simp only: power_Suc)
  also have "Suc 1023 = 1024" by simp
  finally have "huge + huge = 2 ^ 1024" .
  then have second: "jsadd exact_rounding (Num huge) (Num huge) = PosInfinity"
    by (simp add: to_double_def)
  show ?thesis
    unfolding double_mean_def by (simp only: list.map foldl.simps first second jsdiv.simps)
qed

text \<open>
  C6 as stated fails: when the backend answers both chunks with the one-component
  vector \<open>[2\<^sup>1\<^sup>0\<^sup>2\<^sup>3]\<close>, the sum of the two components overflows and the result is
  \<open>[Infinity]\<close>, while their arithmetic mean is \<open>2\<^sup>1\<^sup>0\<^sup>2\<^sup>3\<close>.
\<close>

theorem generateEmbedding_average_counterexample:
  "length (chunkText (replicate 2300 (CHR ''-'') @ [CHR 0x0A, CHR 0x0A] @ replicate 2301 (CHR ''-'')) 4500) = 2 \<and>
   generateEmbedding exact_rounding (Some (\<lambda>n input. Inr [huge]))
     (replicate 2300 (CHR ''-'') @ [CHR 0x0A, CHR 0x0A] @ replicate 2301 (CHR ''-'')) =
     Inr [PosInfinity] \<and>
   generateEmbedding exact_rounding (Some (\<lambda>n input. Inr [huge]))
     (replicate 2300 (CHR ''-'') @ [CHR 0x0A, CHR 0x0A] @ replicate 2301 (CHR ''-'')) \<noteq>
     Inr [Num ((huge + huge) / 2)]"
proof -
  let ?api = "\<lambda>n input. Inr [huge] :: string + real list"
  let ?text = "dashes 2300 @ [CHR 0x0A, CHR 0x0A] @ dashes (Suc 2300)"
  let ?chunks = "[dashes 2300, dashes (Suc 2300)]"
  let ?vs = "[[huge], [huge]]"
  have c: "chunkText ?text 4500 = ?chunks"
    by (rule chunkText_two_paragraphs) simp_all
  have l: "length ?chunks > 1" by simp
  have n: "length ?vs = length ?chunks" by simp
  have a: "\<forall>j<length ?chunks. ?api j (truncate_input (?chunks ! j)) = Inr (?vs ! j)"
    by (simp add: less_Suc_eq)
  have d: "\<forall>v\<in>set ?vs. length v = 1" by simp
  have "generateEmbedding exact_rounding (Some ?api) ?text =
        Inr (map (\<lambda>i. double_mean exact_rounding (map (\<lambda>v. v ! i) ?vs)) [0..<1])"
    using generateEmbedding_columns
            [where rnd = exact_rounding and api = ?api and vs = ?vs and D = 1, OF c l n a d] .
  then have g: "generateEmbedding exact_rounding (Some ?api) ?text = Inr [PosInfinity]"
    by (simp add: double_mean_overflow)
  have tx: "?text = replicate 2300 (CHR ''-'') @ [CHR 0x0A, CHR 0x0A] @ replicate 2301 (CHR ''-'')"
    by (simp add: dashes_def)
  show ?thesis using c g unfolding tx by simp
qed

section \<open>Properties of the link filter and prioritizer\<close>

lemma accepts_url_parsed:
  "accepts_url parse baseDomain url \<Longrightarrow> \<exists>p. parse url = Some p \<and> hostname p = baseDomain"
  by (auto simp: accepts_url_def split: option.splits if_splits)

lemma those_prioritize:
  "\<forall>u\<in>set xs. parse u \<noteq> None \<Longrightarrow>
   those (map (prioritize parse) xs) = Some (map (\<lambda>u. (u, priority_key parse u)) xs)"
  by (induction xs) (auto simp: prioritize_def priority_key_def split: option.splits)

lemma insort_key_pairs:
  "\<forall>y\<in>set ys. snd y = k (fst y) \<Longrightarrow>
   map fst (insort_key snd (u, k u) ys) = insort_key k u (map fst ys)"
  by (induction ys) auto

lemma sort_key_pairs:
  "map fst (sort_key snd (map (\<lambda>u. (u, k u)) xs)) = sort_key k xs"
proof (induction xs)
  case Nil
  show ?case by simp
next
  case (Cons x xs)
  have "\<forall>y\<in>set (sort_key snd (map (\<lambda>u. (u, k u)) xs)). snd y = k (fst y)" by auto
  then show ?case using Cons by (simp add: insort_key_pairs)
qed

lemma filterAndPrioritizeUrls_eq:
  assumes "parse baseUrl = Some b"
  shows "filterAndPrioritizeUrls parse maxUrls urls baseUrl =
         Some (slice0 (sort_key (priority_key parse) (filter (accepts_url parse (hostname b)) urls))
                 maxUrls)"
proof -
  have "\<forall>u\<in>set (filter (accepts_url parse (hostname b)) urls). parse u \<noteq> None"
    by (auto dest: accepts_url_parsed)
  then show ?thesis
    using assms by (simp add: filterAndPrioritizeUrls_def those_prioritize sort_key_pairs)
qed

lemma slice0_take: "\<exists>n. slice0 xs e = take n xs"
  by (auto simp: slice0_def)

lemma length_slice0: "0 \<le> e \<Longrightarrow> int (length (slice0 xs e)) \<le> e"
  by (simp add: slice0_def)

text \<open>
  C1, as the code has it. For a base address that parses and a maximum that is not
  negative, \<open>filterAndPrioritizeUrls\<close> returns a list of links of the input, without
  duplicates whenever the input has none, in which every link has the host name of
  the base address, and of length at most the maximum. The function removes no
  duplicate itself.
\<close>

theorem filterAndPrioritizeUrls_result:
  assumes "parse baseUrl = Some b" and "0 \<le> maxUrls"
  shows "\<exists>r. filterAndPrioritizeUrls parse maxUrls urls baseUrl = Some r \<and>
             (distinct urls \<longrightarrow> distinct r) \<and> set r \<subseteq> set urls \<and>
             (\<forall>u\<in>set r. \<exists>p. parse u = Some p \<and> hostname p = hostname b) \<and>
             int (length r) \<le> maxUrls"
proof -
  let ?sorted = "sort_key (priority_key parse) (filter (accepts_url parse (hostname b)) urls)"
  obtain n where n: "slice0 ?sorted maxUrls = take n ?sorted" using slice0_take by blast
  have sub: "set (take n ?sorted) \<subseteq> set (filter (accepts_url parse (hostname b)) urls)"
    using set_take_subset [of n ?sorted] by simp
  have d: "distinct urls \<longrightarrow> distinct (take n ?sorted)" by simp
  have h: "\<forall>u\<in>set (take n ?sorted). \<exists>p. parse u = Some p \<and> hostname p = hostname b"
    using sub by (auto dest: accepts_url_parsed)
  have s: "set (take n ?sorted) \<subseteq> set urls" using sub by auto
  have l: "int (length (slice0 ?sorted maxUrls)) \<le> maxUrls"
    using assms(2) by (rule length_slice0)
  show ?thesis
    unfolding filterAndPrioritizeUrls_eq [of parse baseUrl b, OF assms(1)] using d h s l unfolding n by blast
qed

theorem filterAndPrioritizeUrls_result_witness:
  "example_parse ''https://a.com'' = Some \<lparr>hostname = ''a.com'', pathname = ''/''\<rparr> \<and>
   (0::int) \<le> 2 \<and>
   distinct [''https://a.com/x/y'', ''https://b.com/z'', ''https://a.com/docs/q'', ''https://a.com/w''] \<and>
   (\<exists>r. filterAndPrioritizeUrls example_parse 2
          [''https://a.com/x/y'', ''https://b.com/z'', ''https://a.com/docs/q'', ''https://a.com/w'']
          ''https://a.com'' = Some r \<and>
        distinct r \<and>
        (\<forall>u\<in>set r. \<exists>p. example_parse u = Some p \<and> hostname p = ''a.com'') \<and>
        int (length r) \<le> 2)"
proof -
  have b: "example_parse ''https://a.com'' = Some \<lparr>hostname = ''a.com'', pathname = ''/''\<rparr>"
    by code_simp
  have m: "(0::int) \<le> 2" by simp
  have d: "distinct [''https://a.com/x/y'', ''https://b.com/z'', ''https://a.com/docs/q'', ''https://a.com/w'']"
    by simp
  show ?thesis
    using filterAndPrioritizeUrls_result [of example_parse "''https://a.com''" _ 2, OF b m] b d
    by fastforce
qed

text \<open>C1 as stated fails: a link given twice is returned twice.\<close>

theorem filterAndPrioritizeUrls_duplicates_counterexample:
  "filterAndPrioritizeUrls example_parse 5000 [''https://a.com/x'', ''https://a.com/x'']
     ''https://a.com'' = Some [''https://a.com/x'', ''https://a.com/x''] \<and>
   \<not> distinct [''https://a.com/x'', ''https://a.com/x'']"
  by code_simp

text \<open>
  C9, as the code has it. The result is in ascending order of the priority key of the
  code: the number of non-empty path segments, less one exactly when the link (not
  only its path) contains, letter case ignored, one of \<open>/docs\<close>, \<open>/documentation\<close>,
  \<open>/api\<close>, \<open>/guide\<close>, \<open>/tutorial\<close>, \<open>/blog\<close>, \<open>/news\<close>, \<open>/product\<close>. Links of equal key keep the
  order in which the accepted links were given: for every key, the links of that key
  in the result are an initial part of the accepted links of that key.
\<close>

theorem filterAndPrioritizeUrls_order:
  assumes "parse baseUrl = Some b"
    and "filterAndPrioritizeUrls parse maxUrls urls baseUrl = Some r"
  shows "sorted (map (priority_key parse) r) \<and>
         (\<forall>u\<in>set r. \<exists>p. parse u = Some p \<and> priority_key parse u = url_priority p u) \<and>
         (\<forall>k. prefix (filter (\<lambda>u. priority_key parse u = k) r)
                (filter (\<lambda>u. priority_key parse u = k)
                   (filter (accepts_url parse (hostname b)) urls)))"
proof -
  let ?acc = "filter (accepts_url parse (hostname b)) urls"
  let ?sorted = "sort_key (priority_key parse) ?acc"
  obtain n where n: "slice0 ?sorted maxUrls = take n ?sorted" using slice0_take by blast
  have r: "r = take n ?sorted"
    using assms(2) unfolding filterAndPrioritizeUrls_eq [of parse baseUrl b, OF assms(1)] n by simp
  have "sorted (map (priority_key parse) ?sorted)" by simp
  then have 1: "sorted (map (priority_key parse) r)"
    unfolding r take_map [symmetric] by (rule sorted_wrt_take)
  have "set r \<subseteq> set ?acc" unfolding r using set_take_subset [of n ?sorted] by simp
  then have 2: "\<forall>u\<in>set r. \<exists>p. parse u = Some p \<and> priority_key parse u = url_priority p u"
    by (auto simp: priority_key_def dest!: accepts_url_parsed)
  have 3: "prefix (filter (\<lambda>u. priority_key parse u = k) r)
             (filter (\<lambda>u. priority_key parse u = k) ?acc)" for k
  proof -
    have "prefix (filter (\<lambda>u. priority_key parse u = k) (take n ?sorted))
            (filter (\<lambda>u. priority_key parse u = k) ?sorted)"
      by (rule filter_mono_prefix) (rule take_is_prefix)
    then show ?thesis unfolding r by (simp only: sort_key_stable)
  qed
  show ?thesis using 1 2 3 by blast
qed

theorem filterAndPrioritizeUrls_order_witness:
  "example_parse ''https://a.com'' = Some \<lparr>hostname = ''a.com'', pathname = ''/''\<rparr> \<and>
   filterAndPrioritizeUrls example_parse 5000
     [''https://a.com/x/y'', ''https://a.com/news/q'', ''https://a.com/w''] ''https://a.com'' =
     Some [''https://a.com/news/q'', ''https://a.com/w'', ''https://a.com/x/y''] \<and>
   sorted (map (priority_key example_parse)
             [''https://a.com/news/q'', ''https://a.com/w'', ''https://a.com/x/y'']) \<and>
   (\<forall>k. prefix (filter (\<lambda>u. priority_key example_parse u = k)
                   [''https://a.com/news/q'', ''https://a.com/w'', ''https://a.com/x/y''])
                (filter (\<lambda>u. priority_key example_parse u = k)
                   (filter (accepts_url example_parse ''a.com'')
                      [''https://a.com/x/y'', ''https://a.com/news/q'', ''https://a.com/w''])))"
proof -
  have b: "example_parse ''https://a.com'' = Some \<lparr>hostname = ''a.com'', pathname = ''/''\<rparr>"
    by code_simp
  have r: "filterAndPrioritizeUrls example_parse 5000
     [''https://a.com/x/y'', ''https://a.com/news/q'', ''https://a.com/w''] ''https://a.com'' =
     Some [''https://a.com/news/q'', ''https://a.com/w'', ''https://a.com/x/y'']"
    by code_simp
  show ?thesis
    using filterAndPrioritizeUrls_order [of example_parse "''https://a.com''" _ 5000, OF b r] b r
    by simp
qed

text \<open>
  C9 as stated fails: \<open>news\<close> is a keyword of the code and not of the specification, so
  the code leaves \<open>/news/x\<close> (key 1) before \<open>/y\<close> (key 1), while the key of the specification
  is 2 for the first and 1 for the second.
\<close>

theorem filterAndPrioritizeUrls_order_counterexample:
  "filterAndPrioritizeUrls example_parse 5000 [''https://a.com/news/x'', ''https://a.com/y'']
     ''https://a.com'' = Some [''https://a.com/news/x'', ''https://a.com/y''] \<and>
   \<not> sorted (map (spec_priority_key example_parse) [''https://a.com/news/x'', ''https://a.com/y''])"
  by code_simp

section \<open>Properties of the task poller\<close>

lemma poll_loop_not_TaskFailed:
  "fst (poll_loop get maxAttempts attempt events) \<noteq> Inl (TaskFailed cause)"
proof (induction get maxAttempts attempt events rule: poll_loop.induct)
  case (1 get maxAttempts attempt events)
  show ?case
  proof (cases "attempt \<le> maxAttempts")
    case False
    then show ?thesis by (subst poll_loop.simps) simp
  next
    case True
    show ?thesis
    proof (cases "poll_attempt (get attempt)")
      case (Inl e)
      then show ?thesis
        using True 1(1) [OF True Inl] by (subst poll_loop.simps) simp
    next
      case (Inr r)
      then show ?thesis
        using True 1(2) [OF True Inr] by (subst poll_loop.simps) (simp split: option.splits)
    qed
  qed
qed

theorem pollForResults_never_TaskFailed:
  "fst (pollForResults get maxAttempts) \<noteq> Inl (TaskFailed cause)"
  unfolding pollForResults_def by (rule poll_loop_not_TaskFailed)

text \<open>
  C3. The claim asks that the poller stop at the first reply whose status is \<open>failed\<close>
  and fail with the cause of the task. The code throws that error inside the \<open>try\<close> of
  the attempt, where the \<open>catch\<close> of the same attempt takes it: after a failed reply to
  the first request the poller waits, asks again and returns the completed result of
  the second request; and when every reply is \<open>failed\<close> it makes all its attempts and
  fails with \<open>Polling failed after 3 attempts\<close>, without the cause.
\<close>

theorem pollForResults_failed_reply:
  "pollForResults
     (\<lambda>n. if n = 1 then GetData \<lparr>task_status = ''failed'', task_state = [], task_error = ''boom''\<rparr>
           else GetData \<lparr>task_status = ''completed'', task_state = [], task_error = []\<rparr>) 15
   = (Inr \<lparr>task_status = ''completed'', task_state = [], task_error = []\<rparr>,
      [Get 1, Wait 2000, Get 2]) \<and>
   pollForResults
     (\<lambda>n. GetData \<lparr>task_status = ''failed'', task_state = [], task_error = ''boom''\<rparr>) 3
   = (Inl (PollingFailedAfter 3), [Get 1, Wait 2000, Get 2, Wait 2000, Get 3])"
  by (simp add: pollForResults_def poll_attempt_def poll_loop.simps)

section \<open>Properties of the batch scheduler\<close>

lemma only_successes_refl [simp]: "only_successes st st"
  by (simp add: only_successes_def)

lemma only_successes_trans:
  "only_successes st st' \<Longrightarrow> only_successes st' st'' \<Longrightarrow> only_successes st st''"
  by (auto simp: only_successes_def)

lemma requests_append [simp]: "requests (a @ b) = requests a @ requests b"
  by (simp add: requests_def)

lemma record_result_props:
  "posts (record_result save st r) = posts st \<and>
   requests (trace (record_result save st r)) = requests (trace st) \<and>
   only_successes st (record_result save st r)"
  by (auto simp: record_result_def requests_def only_successes_def)

lemma record_results_props:
  "posts (snd (record_results save st rs)) = posts st \<and>
   requests (trace (snd (record_results save st rs))) = requests (trace st) \<and>
   only_successes st (snd (record_results save st rs)) \<and>
   (fst (record_results save st rs) \<longleftrightarrow> None \<notin> set rs)"
proof (induction save st rs rule: record_results.induct)
  case (1 save st)
  show ?case by simp
next
  case (2 save st rest)
  show ?case by simp
next
  case (3 save st result rest)
  show ?case
    using 3 record_result_props [of save st result]
    by (auto intro: only_successes_trans)
qed

lemma attempt_batch_fails:
  assumes "attempt_fails_at post poll (posts st) batch"
  shows "\<not> fst (attempt_batch post poll save save_polled batch st) \<and>
         posts (snd (attempt_batch post poll save save_polled batch st)) = posts st + 1 \<and>
         requests (trace (snd (attempt_batch post poll save save_polled batch st))) =
           requests (trace st) @ [Post batch] \<and>
         only_successes st (snd (attempt_batch post poll save save_polled batch st))"
proof (cases "post (posts st) batch")
  case (PostThrows e)
  then show ?thesis
    by (simp add: attempt_batch_def Let_def requests_def only_successes_def)
next
  case (PostData task_id results)
  show ?thesis
  proof (cases results)
    case NoResults
    then show ?thesis
      using assms PostData
      by (auto simp: attempt_batch_def attempt_fails_at_def Let_def requests_def
                     only_successes_def split: poll_reply.splits)
  next
    case NotAnArray
    then show ?thesis
      using PostData
      by (simp add: attempt_batch_def Let_def requests_def only_successes_def)
  next
    case (Results rs)
    let ?st1 = "st\<lparr>trace := trace st @ [Post batch], posts := posts st + 1\<rparr>"
    have n: "None \<in> set rs" using assms PostData Results by (simp add: attempt_fails_at_def)
    have a: "attempt_batch post poll save save_polled batch st = record_results save ?st1 rs"
      using PostData Results by (simp add: attempt_batch_def Let_def)
    have "only_successes st ?st1" by (simp add: only_successes_def)
    then show ?thesis
      unfolding a using record_results_props [of save ?st1 rs] n
      by (auto simp: requests_def intro: only_successes_trans)
  qed
qed

text \<open>\<open>attempt_fails_at\<close> is the condition under which the attempt throws, whatever the
  state and the functions that save.\<close>

lemma attempt_batch_fails_iff:
  "fst (attempt_batch post poll save save_polled batch st) \<longleftrightarrow>
     \<not> attempt_fails_at post poll (posts st) batch"
proof (cases "post (posts st) batch")
  case (PostThrows e)
  then show ?thesis by (simp add: attempt_batch_def attempt_fails_at_def Let_def)
next
  case (PostData task_id results)
  show ?thesis
  proof (cases results)
    case NoResults
    then show ?thesis
      using PostData
      by (auto simp: attempt_batch_def attempt_fails_at_def Let_def split: poll_reply.splits)
  next
    case NotAnArray
    then show ?thesis
      using PostData by (simp add: attempt_batch_def attempt_fails_at_def Let_def)
  next
    case (Results rs)
    then show ?thesis
      using PostData
        record_results_props [of save "st\<lparr>trace := trace st @ [Post batch], posts := posts st + 1\<rparr>" rs]
      by (simp add: attempt_batch_def attempt_fails_at_def Let_def)
  qed
qed

lemma failed_attempts_step:
  assumes "retryCount < maxRetries"
  shows "failed_attempts maxRetries coolOffDelay batch retryCount =
         Post batch #
         (if retryCount + 1 < maxRetries then [Delay (coolOffDelay * (retryCount + 1))] else []) @
         failed_attempts maxRetries coolOffDelay batch (retryCount + 1)"
proof -
  have "[retryCount + 1 ..< maxRetries + 1] = (retryCount + 1) # [retryCount + 1 + 1 ..< maxRetries + 1]"
    using assms by (simp add: upt_rec)
  then show ?thesis by (simp add: failed_attempts_def)
qed

lemma failed_attempts_done: "failed_attempts maxRetries coolOffDelay batch maxRetries = []"
  by (simp add: failed_attempts_def)

lemma retry_loop_all_fail:
  assumes "\<forall>n. posts st \<le> n \<and> n < posts st + (maxRetries - retryCount) \<longrightarrow>
               attempt_fails_at post poll n batch"
    and "retryCount \<le> maxRetries"
  shows "posts (retry_loop post poll save save_polled maxRetries coolOffDelay batch retryCount st) =
           posts st + (maxRetries - retryCount) \<and>
         requests (trace (retry_loop post poll save save_polled maxRetries coolOffDelay batch
                            retryCount st)) =
           requests (trace st) @ failed_attempts maxRetries coolOffDelay batch retryCount \<and>
         only_successes st
           (retry_loop post poll save save_polled maxRetries coolOffDelay batch retryCount st)"
  using assms
proof (induction post poll save save_polled maxRetries coolOffDelay batch retryCount st
       rule: retry_loop.induct)
  case (1 post poll save save_polled maxRetries coolOffDelay batch retryCount st)
  show ?case
  proof (cases "retryCount < maxRetries")
    case False
    then have "retryCount = maxRetries" using 1(3) by simp
    then show ?thesis
      by (subst (1 2 3) retry_loop.simps) (simp add: failed_attempts_done)
  next
    case True
    obtain ok st1 where a: "attempt_batch post poll save save_polled batch st = (ok, st1)"
      by (cases "attempt_batch post poll save save_polled batch st")
    have f: "attempt_fails_at post poll (posts st) batch" using 1(2) True by simp
    have props: "\<not> ok" "posts st1 = posts st + 1"
      "requests (trace st1) = requests (trace st) @ [Post batch]" "only_successes st st1"
      using attempt_batch_fails [OF f, of save save_polled] unfolding a by simp_all
    let ?st2 = "if retryCount + 1 < maxRetries
                then st1\<lparr>trace := trace st1 @ [Delay (coolOffDelay * (retryCount + 1))]\<rparr>
                else st1"
    have p: "posts ?st2 = posts st + 1" using props(2) by simp
    have r2: "requests (trace ?st2) = requests (trace st) @ [Post batch] @
               (if retryCount + 1 < maxRetries then [Delay (coolOffDelay * (retryCount + 1))] else [])"
      using props(3) by (simp add: requests_def)
    have o2: "only_successes st ?st2" using props(4) by (simp add: only_successes_def)
    have later: "\<forall>n. posts ?st2 \<le> n \<and> n < posts ?st2 + (maxRetries - (retryCount + 1)) \<longrightarrow>
                   attempt_fails_at post poll n batch"
      unfolding p using 1(2) True by auto
    have okF: "ok = False" using props(1) by simp
    have ih: "posts (retry_loop post poll save save_polled maxRetries coolOffDelay batch
                       (retryCount + 1) ?st2) = posts ?st2 + (maxRetries - (retryCount + 1)) \<and>
              requests (trace (retry_loop post poll save save_polled maxRetries coolOffDelay batch
                       (retryCount + 1) ?st2)) =
                requests (trace ?st2) @ failed_attempts maxRetries coolOffDelay batch (retryCount + 1) \<and>
              only_successes ?st2 (retry_loop post poll save save_polled maxRetries coolOffDelay batch
                       (retryCount + 1) ?st2)"
      using 1(1) [OF True a [symmetric, unfolded okF] _ refl refl later] True by simp
    have unfold: "retry_loop post poll save save_polled maxRetries coolOffDelay batch retryCount st =
          retry_loop post poll save save_polled maxRetries coolOffDelay batch (retryCount + 1) ?st2"
      using True a okF by (subst retry_loop.simps) (simp add: Let_def)
    show ?thesis
      unfolding unfold
      using ih True p r2 only_successes_trans [OF o2]
      by (simp add: failed_attempts_step [OF True])
  qed
qed

text \<open>
  C4, as the code has it. A batch every attempt at which fails is requested exactly
  \<open>maxRetries\<close> times, with a wait of \<open>coolOffDelay\<close> times the number of the attempt
  between two attempts and the cool-off after the batch when another batch follows.
  The scheduler records no failed result for the links of the batch: what the
  accumulated results gain are only pages that succeeded, those that an attempt had
  gone through before it failed. The loop goes on with the batches that remain.
\<close>

theorem failing_batch_retries:
  assumes "\<forall>n. posts st \<le> n \<and> n < posts st + maxRetries \<longrightarrow> attempt_fails_at post poll n batch"
  shows "posts (process_batch post poll save save_polled maxRetries coolOffDelay totalBatches
                  batchIndex batch st) = posts st + maxRetries \<and>
         requests (trace (process_batch post poll save save_polled maxRetries coolOffDelay
                            totalBatches batchIndex batch st)) =
           requests (trace st) @ failed_attempts maxRetries coolOffDelay batch 0 @
           (if batchIndex < totalBatches - 1 then [Delay coolOffDelay] else []) \<and>
         (\<forall>r\<in>set (allResults (process_batch post poll save save_polled maxRetries coolOffDelay
                                 totalBatches batchIndex batch st)).
            r \<in> set (allResults st) \<or> pr_success r) \<and>
         run_batches post poll save save_polled maxRetries coolOffDelay totalBatches batchIndex
           (batch # rest) st =
         run_batches post poll save save_polled maxRetries coolOffDelay totalBatches (batchIndex + 1)
           rest (process_batch post poll save save_polled maxRetries coolOffDelay totalBatches
                   batchIndex batch st)"
proof -
  let ?st1 = "st\<lparr>trace := trace st @ [BatchStart (batchIndex + 1) totalBatches batch]\<rparr>"
  let ?st2 = "retry_loop post poll save save_polled maxRetries coolOffDelay batch 0 ?st1"
  have "\<forall>n. posts ?st1 \<le> n \<and> n < posts ?st1 + (maxRetries - 0) \<longrightarrow>
            attempt_fails_at post poll n batch"
    using assms by simp
  then have r: "posts ?st2 = posts ?st1 + (maxRetries - 0) \<and>
      requests (trace ?st2) = requests (trace ?st1) @ failed_attempts maxRetries coolOffDelay batch 0 \<and>
      only_successes ?st1 ?st2"
    by (rule retry_loop_all_fail) simp
  have o: "\<forall>r\<in>set (allResults ?st2). r \<in> set (allResults st) \<or> pr_success r"
    using r by (simp add: only_successes_def)
  show ?thesis
    using r o by (simp add: process_batch_def Let_def requests_def)
qed

lemma example_run:
  "trace (run_batches example_post example_poll (\<lambda>result table. table) (\<lambda>pages table. table)
            3 5000 2 0 [[''https://a.com/x''], [''https://a.com/y'']] empty_run) =
     [BatchStart 1 2 [''https://a.com/x''], Post [''https://a.com/x''], Delay 5000,
      Post [''https://a.com/x''], Delay 10000, Post [''https://a.com/x''],
      UrlCrawled ''https://a.com/x'', Delay 5000,
      BatchStart 2 2 [''https://a.com/y''], Post [''https://a.com/y''],
      UrlCrawled ''https://a.com/y'']"
  by (simp add: process_batch_def retry_loop.simps attempt_batch_def record_result_def
        example_post_def example_poll_def example_page_def empty_run_def Let_def)

lemma example_run_results:
  "map pr_url
     (allResults (run_batches example_post example_poll (\<lambda>result table. table)
                    (\<lambda>pages table. table) 3 5000 2 0
                    [[''https://a.com/x''], [''https://a.com/y'']] empty_run)) =
     [''https://a.com/x'', ''https://a.com/y'']"
  by (simp add: process_batch_def retry_loop.simps attempt_batch_def record_result_def
        example_post_def example_poll_def example_page_def empty_run_def Let_def)

text \<open>
  Two batches of one link each, three attempts, a cool-off of 5000 ms. The first batch
  fails three times, the page that its third attempt went through before the \<open>null\<close>
  entry is kept, and the second batch is crawled.
\<close>

theorem failing_batch_retries_witness:
  "posts (process_batch example_post example_poll (\<lambda>result table. table) (\<lambda>pages table. table)
            3 5000 2 0 [''https://a.com/x''] empty_run) = 3 \<and>
   requests (trace (process_batch example_post example_poll (\<lambda>result table. table)
                      (\<lambda>pages table. table) 3 5000 2 0 [''https://a.com/x''] empty_run)) =
     [Post [''https://a.com/x''], Delay 5000, Post [''https://a.com/x''], Delay 10000,
      Post [''https://a.com/x''], Delay 5000] \<and>
   trace (run_batches example_post example_poll (\<lambda>result table. table) (\<lambda>pages table. table)
            3 5000 2 0 [[''https://a.com/x''], [''https://a.com/y'']] empty_run) =
     [BatchStart 1 2 [''https://a.com/x''], Post [''https://a.com/x''], Delay 5000,
      Post [''https://a.com/x''], Delay 10000, Post [''https://a.com/x''],
      UrlCrawled ''https://a.com/x'', Delay 5000,
      BatchStart 2 2 [''https://a.com/y''], Post [''https://a.com/y''],
      UrlCrawled ''https://a.com/y''] \<and>
   map pr_url
     (allResults (run_batches example_post example_poll (\<lambda>result table. table)
                    (\<lambda>pages table. table) 3 5000 2 0
                    [[''https://a.com/x''], [''https://a.com/y'']] empty_run)) =
     [''https://a.com/x'', ''https://a.com/y'']"
proof -
  have f: "\<forall>n. posts empty_run \<le> n \<and> n < posts empty_run + 3 \<longrightarrow>
             attempt_fails_at example_post example_poll n [''https://a.com/x'']"
    by (simp add: attempt_fails_at_def example_post_def example_poll_def)
  have a: "failed_attempts 3 5000 [''https://a.com/x''] 0 =
           [Post [''https://a.com/x''], Delay 5000, Post [''https://a.com/x''], Delay 10000,
            Post [''https://a.com/x'']]"
    by code_simp
  have e: "requests (trace empty_run) = []" "posts empty_run = 0"
    by (simp_all add: empty_run_def requests_def)
  show ?thesis
    using failing_batch_retries
            [where st = empty_run and maxRetries = 3 and post = example_post and poll = example_poll
               and batch = "[''https://a.com/x'']" and save = "\<lambda>result table. table"
               and save_polled = "\<lambda>pages table. table" and coolOffDelay = 5000
               and totalBatches = 2 and batchIndex = 0, OF f]
          example_run example_run_results
    by (simp add: a e)
qed

text \<open>
  C4 as stated fails: when every request for the only batch throws, the run ends
  with no result at all, and nothing is recorded or emitted for the link of the batch.
\<close>

theorem intelligentBatchCrawl_counterexample:
  "map_option allResults
     (intelligentBatchCrawl (\<lambda>n batch. PostThrows ''Network Error'')
        (\<lambda>n task. PollThrows ''Polling timed out'') (\<lambda>result table. table)
        (\<lambda>pages table. table) 50 5000 3 [''https://a.com/x''] empty_table) = Some [] \<and>
   map_option trace
     (intelligentBatchCrawl (\<lambda>n batch. PostThrows ''Network Error'')
        (\<lambda>n task. PollThrows ''Polling timed out'') (\<lambda>result table. table)
        (\<lambda>pages table. table) 50 5000 3 [''https://a.com/x''] empty_table) =
   Some [BatchStart 1 1 [''https://a.com/x''], Post [''https://a.com/x''], Delay 5000,
         Post [''https://a.com/x''], Delay 10000, Post [''https://a.com/x'']]"
proof -
  have b: "split_batches [''https://a.com/x''] 50 0 [] = Some [[''https://a.com/x'']]"
    by (simp add: split_batches.simps)
  show ?thesis
    by (simp add: intelligentBatchCrawl_def b process_batch_def retry_loop.simps
          attempt_batch_def Let_def)
qed

section \<open>Properties of the smart site crawl\<close>

lemma smartSiteCrawl_manual_failure:
  "smartSiteCrawl False False (Inl nativeCause) (Inl manualCause) url =
     Inr (failed_result url (''Smart crawl failed: '' @ manualCause))"
  by (simp add: smartSiteCrawl_def smartSiteCrawlNative_def smartSiteCrawlManual_def)

text \<open>
  C5. The claim asks for a failed result whose message has the cause of the native
  failure and the cause of the manual failure. \<open>smartSiteCrawlManual\<close> catches its own
  errors and returns a failed result, so the \<open>catch\<close> of \<open>smartSiteCrawl\<close> that builds the
  combined message is never reached: for the address \<open>example.com\<close>, where the native
  strategy fails with \<open>Initial page crawl failed\<close> and the manual one with \<open>Invalid URL\<close>,
  the message is \<open>Smart crawl failed: Invalid URL\<close> and the native cause is not in it.
\<close>

theorem smartSiteCrawl_both_fail:
  "smartSiteCrawlManual_steps example_parse 5000 [''example.com''] crawl ''example.com'' =
     Inl ''Invalid URL'' \<and>
   smartSiteCrawl False False (Inl ''Initial page crawl failed'')
     (smartSiteCrawlManual_steps example_parse 5000 [''example.com''] crawl ''example.com'') ''example.com'' =
   Inr (failed_result ''example.com'' ''Smart crawl failed: Invalid URL'') \<and>
   \<not> sublist ''Initial page crawl failed'' ''Smart crawl failed: Invalid URL''"
proof -
  have p: "example_parse ''example.com'' = None" by code_simp
  have m: "smartSiteCrawlManual_steps example_parse 5000 [''example.com''] crawl ''example.com'' =
           Inl ''Invalid URL''"
    by (simp add: smartSiteCrawlManual_steps_def filterAndPrioritizeUrls_def p)
  have s: "\<not> sublist ''Initial page crawl failed'' ''Smart crawl failed: Invalid URL''"
    by code_simp
  show ?thesis
    unfolding m using s
    by (simp add: smartSiteCrawl_def smartSiteCrawlNative_def smartSiteCrawlManual_def)
qed

section \<open>Properties of the persistence\<close>

lemma embedding_for_failure:
  "generateEmbedding rnd client text = Inl e \<Longrightarrow> embedding_for rnd client text = None"
  by (simp add: embedding_for_def)

lemma build_document_ok:
  assumes "(\<exists>t. cr_title crawlResult = Some t \<and> t \<noteq> []) \<or> parse (cr_url crawlResult) \<noteq> None"
  shows "\<exists>doc. build_document parse crawlResult embedding = Inr doc \<and>
               doc_embedding doc = embedding \<and> doc_url doc = cr_url crawlResult \<and>
               (cr_content crawlResult \<noteq> [] \<longrightarrow> doc_content doc \<noteq> [])"
  using assms by (auto simp: build_document_def Let_def split: option.splits)

text \<open>
  C8, as the code has it. For a crawl result with content that has a title or an
  address that parses: when the generation of the embedding fails,
  \<open>saveCrawlResultAsDocument\<close> still issues the upsert, of a row with the content and
  without an embedding; and when the database stores the row, the function returns
  it and the table has it under its key.
\<close>

theorem saveCrawlResultAsDocument_without_embedding:
  assumes content: "cr_content crawlResult \<noteq> []"
    and failure: "generateEmbedding rnd client (textForEmbedding crawlResult) = Inl e"
    and title: "(\<exists>t. cr_title crawlResult = Some t \<and> t \<noteq> []) \<or> parse (cr_url crawlResult) \<noteq> None"
  shows "\<exists>doc. upserts (snd (saveCrawlResultAsDocument parse rnd client db crawlResult st)) =
                 upserts st @ [doc] \<and>
               doc_url doc = cr_url crawlResult \<and> doc_content doc \<noteq> [] \<and>
               doc_embedding doc = None \<and>
               (db doc = Stored \<longrightarrow>
                  fst (saveCrawlResultAsDocument parse rnd client db crawlResult st) = Inr doc \<and>
                  store (snd (saveCrawlResultAsDocument parse rnd client db crawlResult st))
                    (doc_url doc, chunk_number doc) = Some doc)"
proof -
  have none: "embedding_for rnd client (textForEmbedding crawlResult) = None"
    using failure by (rule embedding_for_failure)
  obtain doc where doc: "build_document parse crawlResult None = Inr doc"
    and props: "doc_embedding doc = None" "doc_url doc = cr_url crawlResult" "doc_content doc \<noteq> []"
    using build_document_ok [where parse = parse and crawlResult = crawlResult and embedding = None, OF title] content by blast
  have "upserts (snd (saveCrawlResultAsDocument parse rnd client db crawlResult st)) = upserts st @ [doc]"
    by (simp add: saveCrawlResultAsDocument_def Let_def none doc split: db_reply.splits)
  moreover have "db doc = Stored \<longrightarrow>
      fst (saveCrawlResultAsDocument parse rnd client db crawlResult st) = Inr doc \<and>
      store (snd (saveCrawlResultAsDocument parse rnd client db crawlResult st))
        (doc_url doc, chunk_number doc) = Some doc"
    by (simp add: saveCrawlResultAsDocument_def Let_def none doc)
  ultimately show ?thesis using props by blast
qed

theorem saveCrawlResultAsDocument_without_embedding_witness:
  "cr_content (example_result ''https://a.com/x'' ''hello'') \<noteq> [] \<and>
   generateEmbedding exact_rounding (Some (\<lambda>n input. Inl ''down''))
     (textForEmbedding (example_result ''https://a.com/x'' ''hello'')) =
     Inl ''Embedding generation failed: down'' \<and>
   example_parse (cr_url (example_result ''https://a.com/x'' ''hello'')) \<noteq> None \<and>
   (\<exists>doc. upserts (snd (saveCrawlResultAsDocument example_parse exact_rounding (Some (\<lambda>n input. Inl ''down''))
                           (\<lambda>row. Stored) (example_result ''https://a.com/x'' ''hello'')
                           empty_table)) = upserts empty_table @ [doc] \<and>
          doc_content doc \<noteq> [] \<and> doc_embedding doc = None)"
proof -
  have c: "cr_content (example_result ''https://a.com/x'' ''hello'') \<noteq> []" by code_simp
  have g: "generateEmbedding exact_rounding (Some (\<lambda>n input. Inl ''down''))
             (textForEmbedding (example_result ''https://a.com/x'' ''hello'')) =
           Inl ''Embedding generation failed: down''"
    by code_simp
  have u: "example_parse (cr_url (example_result ''https://a.com/x'' ''hello'')) \<noteq> None"
    by code_simp
  have t: "(\<exists>t. cr_title (example_result ''https://a.com/x'' ''hello'') = Some t \<and> t \<noteq> []) \<or>
           example_parse (cr_url (example_result ''https://a.com/x'' ''hello'')) \<noteq> None"
    using u by blast
  show ?thesis
    using saveCrawlResultAsDocument_without_embedding
            [where parse = example_parse and db = "\<lambda>row. Stored" and st = empty_table, OF c g t]
          c g u
    by blast
qed

text \<open>
  C8 as stated fails for a result without a title whose address does not parse: the
  fallback title \<open>new URL(url).hostname\<close> throws before the upsert, and nothing is sent to
  the database.
\<close>

theorem saveCrawlResultAsDocument_counterexample:
  "cr_content (example_result ''not a url'' ''hello'') \<noteq> [] \<and>
   generateEmbedding exact_rounding (Some (\<lambda>n input. Inl ''down''))
     (textForEmbedding (example_result ''not a url'' ''hello'')) =
     Inl ''Embedding generation failed: down'' \<and>
   fst (saveCrawlResultAsDocument example_parse exact_rounding (Some (\<lambda>n input. Inl ''down'')) (\<lambda>row. Stored)
          (example_result ''not a url'' ''hello'') empty_table) =
     Inl ''Failed to save to database: Invalid URL'' \<and>
   upserts (snd (saveCrawlResultAsDocument example_parse exact_rounding (Some (\<lambda>n input. Inl ''down''))
                   (\<lambda>row. Stored) (example_result ''not a url'' ''hello'') empty_table)) = []"
  by code_simp

lemma saveIndividualPages_from_skips:
  assumes "\<forall>result\<in>set results.
             \<not> pr_success result \<or> (\<exists>content. best_content result = JStr content \<and> trim content = [])"
  shows "saveIndividualPages_from parse rnd client db i results st = Inr st"
  using assms by (induction results arbitrary: i) auto

text \<open>
  C10. For a result whose best available content (fit markdown, else raw markdown,
  else extracted content, else HTML) is empty or only white space, \<open>saveIndividualPage\<close>
  returns with the table and the list of upserts as they were: no upsert, no error.
  The same holds for \<open>saveIndividualPages\<close> on a list of such results.
\<close>

theorem saveIndividualPage_no_upsert:
  "(best_content result = JStr content \<and> trim content = [] \<longrightarrow>
      saveIndividualPage parse rnd client db result st = st) \<and>
   ((\<forall>r\<in>set results. \<not> pr_success r \<or> (\<exists>c. best_content r = JStr c \<and> trim c = [])) \<longrightarrow>
      saveIndividualPages parse rnd client db results st = Inr st)"
  by (simp add: saveIndividualPage_def saveIndividualPages_def saveIndividualPages_from_skips)

theorem saveIndividualPage_no_upsert_witness:
  "best_content (example_page ''https://a.com/x'' ''  '') = JStr ''  '' \<and> trim ''  '' = [] \<and>
   saveIndividualPage example_parse exact_rounding None (\<lambda>row. Stored) (example_page ''https://a.com/x'' ''  '')
     empty_table = empty_table \<and>
   saveIndividualPages example_parse exact_rounding None (\<lambda>row. Stored) [example_page ''https://a.com/x'' ''  '']
     empty_table = Inr empty_table"
proof -
  have b: "best_content (example_page ''https://a.com/x'' ''  '') = JStr ''  ''" by code_simp
  have t: "trim ''  '' = []" by code_simp
  have a: "\<forall>r\<in>set [example_page ''https://a.com/x'' ''  ''].
             \<not> pr_success r \<or> (\<exists>c. best_content r = JStr c \<and> trim c = [])"
    using b t by simp
  show ?thesis
    using saveIndividualPage_no_upsert
            [of "example_page ''https://a.com/x'' ''  ''" "''  ''" example_parse exact_rounding None
                "\<lambda>row. Stored" empty_table "[example_page ''https://a.com/x'' ''  '']"]
          b t a
    by blast
qed

end
